theory Spec2Isabelle
  imports Main
begin

section \<open>The Exchange client of exchange/rpc.go\<close>

text \<open>
  A shallow embedding of the definition lookup functions of \<^verbatim>\<open>exchange/rpc.go\<close>
  (\<^verbatim>\<open>getSearchVersion\<close>, \<^verbatim>\<open>GetWorkload\<close>,
      \<^verbatim>\<open>GetMicroservice\<close>, \<^verbatim>\<open>WorkloadResolver\<close>,
  \<^verbatim>\<open>GetOrganization\<close>, \<^verbatim>\<open>GetEthereumClient\<close>) and of
      the primitive they share,
  \<^verbatim>\<open>InvokeExchange\<close>. Go strings are byte strings (\<open>string\<close>),
      a nil pointer is
  \<open>None\<close>, an \<^verbatim>\<open>error\<close> result is an \<open>error
      option\<close>, a map is the list of its entries
  in the order in which a \<^verbatim>\<open>range\<close> loop visits them, and a
      \<^verbatim>\<open>for\<close> loop without a
  bound is a \<^theory_text>\<open>partial_function\<close> whose value \<open>None\<close> means
      that the call never returns.
\<close>

subsection \<open>Functions of the Go library\<close>

text \<open>\<^verbatim>\<open>strings.Compare(a, b)\<close>: the lexicographic order of the
    bytes; -1, 0 or +1.\<close>

fun strings_Compare :: "string \<Rightarrow> string \<Rightarrow> int" where
  "strings_Compare [] [] = 0"
| "strings_Compare [] (y # ys) = - 1"
| "strings_Compare (x # xs) [] = 1"
| "strings_Compare (x # xs) (y # ys) =
     (if (of_char x :: nat) < of_char y then - 1
      else if (of_char y :: nat) < of_char x then 1
      else strings_Compare xs ys)"

text \<open>\<^verbatim>\<open>strings.HasPrefix\<close> and
    \<^verbatim>\<open>strings.Contains\<close>.\<close>

fun HasPrefix :: "string \<Rightarrow> string \<Rightarrow> bool" where
  "HasPrefix s [] = True"
| "HasPrefix [] (p # ps) = False"
| "HasPrefix (c # cs) (p # ps) = (c = p \<and> HasPrefix cs ps)"

fun Contains :: "string \<Rightarrow> string \<Rightarrow> bool" where
  "Contains [] sub = (sub = [])"
| "Contains (c # cs) sub = (HasPrefix (c # cs) sub \<or> Contains cs sub)"

text \<open>\<^verbatim>\<open>unicode.ToLower\<close> on a byte below 128: the letters A to Z become a to z.\<close>

definition lower_byte :: "char \<Rightarrow> char" where
  "lower_byte c =
     (if (65::nat) \<le> of_char c \<and> (of_char c :: nat) \<le> 90
      then char_of ((of_char c :: nat) + 32) else c)"

text \<open>
  \<^verbatim>\<open>strings.ToLower\<close>, which maps \<^verbatim>\<open>unicode.ToLower\<close> over the code points of the UTF-8
  text, as far as a search for ASCII text can tell. The letters A to Z are lowered.
  Two code points beyond ASCII have a lower case in ASCII, and these are mapped: U+0130
  (the bytes 196 176) to \<^verbatim>\<open>i\<close> and U+212A (the bytes 226 132 170) to \<^verbatim>\<open>k\<close>; the byte
  196 and the byte 226 never continue a code point, so that these bytes always stand for
  these code points. Every other byte from 128 on is kept: Go writes in its place the
  lower case of the code point, or U+FFFD for a byte that is not UTF-8, all of which
  consist of bytes from 128 on, as the byte kept does. So \<^verbatim>\<open>strings.Contains\<close> finds an
  ASCII text in the result exactly when it finds it in Go's.
\<close>

fun ToLower :: "string \<Rightarrow> string" where
  "ToLower (a # b # c # rest) =
     (if (of_char a :: nat) = 196 \<and> (of_char b :: nat) = 176
      then CHR ''i'' # ToLower (c # rest)
      else if (of_char a :: nat) = 226 \<and> (of_char b :: nat) = 132 \<and> (of_char c :: nat) = 170
      then CHR ''k'' # ToLower rest
      else lower_byte a # ToLower (b # c # rest))"
| "ToLower [a, b] =
     (if (of_char a :: nat) = 196 \<and> (of_char b :: nat) = 176 then [CHR ''i'']
      else [lower_byte a, lower_byte b])"
| "ToLower [a] = [lower_byte a]"
| "ToLower [] = []"

text \<open>\<^verbatim>\<open>strings.Split(s, sep)\<close> for a separator of one byte.\<close>

fun Split :: "string \<Rightarrow> char \<Rightarrow> string list" where
  "Split [] sep = [[]]"
| "Split (c # cs) sep =
     (if c = sep then [] # Split cs sep
      else (case Split cs sep of
              [] \<Rightarrow> [[c]]
            | p # ps \<Rightarrow> (c # p) # ps))"

text \<open>\<^verbatim>\<open>strings.TrimSpace\<close>, for the blank.\<close>

definition TrimSpace :: "string \<Rightarrow> string" where
  "TrimSpace s =
     rev (dropWhile (\<lambda>c. c = CHR '' '') (rev (dropWhile (\<lambda>c. c = CHR '' '') s)))"

subsection \<open>Versions and version ranges (package policy)\<close>

text \<open>
  Modelled from the spec: the functions \<^verbatim>\<open>IsVersionString\<close>, \<^verbatim>\<open>IsVersionExpression\<close>,
  \<^verbatim>\<open>Version_Expression_Factory\<close>, \<^verbatim>\<open>Is_within_range\<close> and \<^verbatim>\<open>Get_expression\<close> of package
  \<^verbatim>\<open>policy\<close> (policy/version.go), which \<^verbatim>\<open>exchange/rpc.go\<close> calls and which is not among
  the sources. The spec: a version is a dotted numeric string; a range is a single
  version \<open>v\<close>, read as \<open>[v, \<infinity>)\<close>, or a full interval with an inclusive or exclusive
  bound on each side; versions are compared segment by segment from the left as
  numbers, and a missing trailing segment is zero. The upper bound \<^verbatim>\<open>INFINITY\<close> is the
  one the comment of \<^verbatim>\<open>getSearchVersion\<close> writes.
\<close>

definition is_digit :: "char \<Rightarrow> bool" where
  "is_digit c = ((48::nat) \<le> of_char c \<and> (of_char c :: nat) \<le> 57)"

definition number_of_digits :: "string \<Rightarrow> nat" where
  "number_of_digits s = foldl (\<lambda>n c. 10 * n + ((of_char c :: nat) - 48)) 0 s"

definition is_number :: "string \<Rightarrow> bool" where
  "is_number s = (s \<noteq> [] \<and> list_all is_digit s)"

text \<open>Modelled from the spec: the segments of a dotted numeric string, as numbers.\<close>

definition parse_version :: "string \<Rightarrow> nat list option" where
  "parse_version s =
     (if list_all is_number (Split s CHR ''.'')
      then Some (map number_of_digits (Split s CHR ''.'')) else None)"

text \<open>Modelled from the spec: \<open>isVersion(s)\<close>, "a version is a dotted numeric
    string".\<close>

definition IsVersionString :: "string \<Rightarrow> bool" where
  "IsVersionString s = (parse_version s \<noteq> None)"

text \<open>
  Modelled from the spec: \<open>cmp(a, b)\<close>, -1, 0 or +1 "using segment-wise numeric
  ordering", "missing trailing segments are zero".
\<close>

fun cmp :: "nat list \<Rightarrow> nat list \<Rightarrow> int" where
  "cmp [] [] = 0"
| "cmp [] (y # ys) = (if 0 < y then - 1 else cmp [] ys)"
| "cmp (x # xs) [] = (if 0 < x then 1 else cmp xs [])"
| "cmp (x # xs) (y # ys) =
     (if x < y then - 1 else if y < x then 1 else cmp xs ys)"

text \<open>
  Modelled from the spec: a range in its parsed form. \<open>ve_end = None\<close> is the upper
  bound \<open>\<infinity>\<close>.
\<close>

record Version_Expression =
  full_expression :: string
  ve_start :: "nat list"
  start_inclusive :: bool
  ve_end :: "nat list option"
  end_inclusive :: bool

text \<open>
  Modelled from the spec: \<open>parseRange(s)\<close> on a full interval: an opening bracket
  \<^verbatim>\<open>[\<close> or \<^verbatim>\<open>(\<close>, the lower version, a comma, the upper version or \<^verbatim>\<open>INFINITY\<close>, and a
  closing bracket \<^verbatim>\<open>]\<close> or \<^verbatim>\<open>)\<close>; blanks around the two bounds are ignored.
\<close>

definition parse_range :: "string \<Rightarrow> Version_Expression option" where
  "parse_range s =
     (case s of
        [] \<Rightarrow> None
      | l # rest \<Rightarrow>
          (if (l = CHR ''['' \<or> l = CHR ''('') \<and> rest \<noteq> []
              \<and> (last rest = CHR '']'' \<or> last rest = CHR '')'')
           then
             (case Split (butlast rest) CHR '','' of
                [lo, hi] \<Rightarrow>
                  (case parse_version (TrimSpace lo) of
                     None \<Rightarrow> None
                   | Some lov \<Rightarrow>
                       (if TrimSpace hi = ''INFINITY''
                        then Some \<lparr>full_expression = s, ve_start = lov,
                                   start_inclusive = (l = CHR ''[''), ve_end = None,
                                   end_inclusive = (last rest = CHR '']'')\<rparr>
                        else
                          (case parse_version (TrimSpace hi) of
                             None \<Rightarrow> None
                           | Some hiv \<Rightarrow>
                               Some \<lparr>full_expression = s, ve_start = lov,
                                     start_inclusive = (l = CHR ''[''), ve_end = Some hiv,
                                     end_inclusive = (last rest = CHR '']'')\<rparr>)))
              | _ \<Rightarrow> None)
           else None))"

text \<open>Modelled from the spec: \<open>isRange(s)\<close>, true of a full interval only.\<close>

definition IsVersionExpression :: "string \<Rightarrow> bool" where
  "IsVersionExpression s = (parse_range s \<noteq> None)"

text \<open>
  Modelled from the spec: \<open>parseRange(s)\<close>, "a bare version \<open>v\<close> parses to
  \<open>[v, \<infinity>)\<close>"; a string that is neither a version nor a range is an error (the text of
  the error is the string itself).
\<close>

definition Version_Expression_Factory :: "string \<Rightarrow> string + Version_Expression" where
  "Version_Expression_Factory ver_string =
     (case parse_version ver_string of
        Some v \<Rightarrow>
          Inr \<lparr>full_expression = ''['' @ ver_string @ '',INFINITY)'', ve_start = v,
               start_inclusive = True, ve_end = None, end_inclusive = False\<rparr>
      | None \<Rightarrow>
          (case parse_range ver_string of
             Some r \<Rightarrow> Inr r
           | None \<Rightarrow> Inl ver_string))"

text \<open>Modelled from the spec: the full form of a range, as a string.\<close>

definition Get_expression :: "Version_Expression \<Rightarrow> string" where
  "Get_expression r = full_expression r"

text \<open>
  Modelled from the spec: \<open>inRange(v, r)\<close>; a string that is not a version is an
  error (the text of the error is the string itself).
\<close>

definition Is_within_range :: "Version_Expression \<Rightarrow> string \<Rightarrow> string +
    bool" where
  "Is_within_range r expr =
     (case parse_version expr of
        None \<Rightarrow> Inl expr
      | Some v \<Rightarrow>
          Inr ((if start_inclusive r then cmp (ve_start r) v \<le> 0 else cmp (ve_start r) v < 0)
             \<and> (case ve_end r of
                  None \<Rightarrow> True
                | Some hi \<Rightarrow> (if end_inclusive r then cmp v hi \<le> 0 else cmp v hi <
                    0))))"

text \<open>
  Modelled from the spec: \<^verbatim>\<open>policy.APISpecification\<close> and its factory, "the list of
  API-spec dependencies (\<open>specRef\<close>, \<open>org\<close>, \<open>version\<close>, \<open>arch\<close>)".
\<close>

record APISpecification =
  ps_SpecRef :: string
  ps_Org :: string
  ps_Version :: string
  ps_Arch :: string

definition APISpecification_Factory ::
  "string \<Rightarrow> string \<Rightarrow> string \<Rightarrow> string \<Rightarrow>
      APISpecification" where
  "APISpecification_Factory ref org vers arch =
     \<lparr>ps_SpecRef = ref, ps_Org = org, ps_Version = vers, ps_Arch = arch\<rparr>"

type_synonym APISpecList = "APISpecification list"

subsection \<open>The structs of the Exchange API\<close>

text \<open>
  The fields of a record carry a prefix of their struct (Isabelle's record fields share
  one name space; several structs have a \<^verbatim>\<open>Version\<close> or a \<^verbatim>\<open>Label\<close>).
\<close>

record APISpec =
  as_SpecRef :: string
  as_Org :: string
  as_Version :: string
  as_Arch :: string

record UserInput =
  ui_Name :: string
  ui_Label :: string
  ui_Type :: string
  ui_DefaultValue :: string

record WorkloadDeployment =
  wdp_Deployment :: string
  wdp_DeploymentSignature :: string
  wdp_Torrent :: string

record WorkloadDefinition =
  wd_Owner :: string
  wd_Label :: string
  wd_Description :: string
  wd_WorkloadURL :: string
  wd_Version :: string
  wd_Arch :: string
  wd_DownloadURL :: string
  wd_APISpecs :: "APISpec list"
  wd_UserInputs :: "UserInput list"
  wd_Workloads :: "WorkloadDeployment list"
  wd_LastUpdated :: string

record HardwareMatch =
  hm_USBDeviceIds :: string
  hm_Devfiles :: string

record MicroserviceDefinition =
  md_Owner :: string
  md_Label :: string
  md_Description :: string
  md_SpecRef :: string
  md_Version :: string
  md_Arch :: string
  md_Sharable :: string
  md_DownloadURL :: string
  md_MatchHardware :: HardwareMatch
  md_UserInputs :: "UserInput list"
  md_Workloads :: "WorkloadDeployment list"
  md_LastUpdated :: string

record Organization =
  org_Label :: string
  org_Description :: string
  org_LastUpdated :: string

record BlockchainDef =
  bc_Description :: string
  bc_DefinedBy :: string
  bc_Details :: string
  bc_LastUpdated :: string

text \<open>The zero values of \<^verbatim>\<open>var resWDef WorkloadDefinition\<close> and
    \<^verbatim>\<open>var resMsDef MicroserviceDefinition\<close>.\<close>

definition zero_WorkloadDefinition :: WorkloadDefinition where
  "zero_WorkloadDefinition =
     \<lparr>wd_Owner = [], wd_Label = [], wd_Description = [], wd_WorkloadURL = [],
      wd_Version = [], wd_Arch = [], wd_DownloadURL = [], wd_APISpecs = [],
      wd_UserInputs = [], wd_Workloads = [], wd_LastUpdated = []\<rparr>"

definition zero_MicroserviceDefinition :: MicroserviceDefinition where
  "zero_MicroserviceDefinition =
     \<lparr>md_Owner = [], md_Label = [], md_Description = [], md_SpecRef = [],
      md_Version = [], md_Arch = [], md_Sharable = [], md_DownloadURL = [],
      md_MatchHardware = \<lparr>hm_USBDeviceIds = [], hm_Devfiles = []\<rparr>,
      md_UserInputs = [], md_Workloads = [], md_LastUpdated = []\<rparr>"

text \<open>
  The response objects that \<^verbatim>\<open>InvokeExchange\<close> fills and switches on. A map is the list
  of its entries. The objects that the lookup functions never read carry no content;
  \<open>OtherResponse\<close> stands for an object of any type outside the switch.
\<close>

datatype response =
    PutDeviceResponse
  | PostDeviceResponse string string
  | SearchExchangeResponse
  | GetDevicesResponse
  | GetAgbotsResponse
  | AllDeviceAgreementsResponse
  | AllAgbotAgreementsResponse
  | GetDeviceMessageResponse
  | GetAgbotMessageResponse
  | GetEthereumClientResponse "(string \<times> BlockchainDef) list"
  | GetWorkloadsResponse "(string \<times> WorkloadDefinition) list"
  | GetMicroservicesResponse "(string \<times> MicroserviceDefinition) list"
  | GetOrganizationResponse "(string \<times> Organization) list"
  | OtherResponse

subsection \<open>Errors\<close>

text \<open>
  One constructor for each \<^verbatim>\<open>errors.New(fmt.Sprintf(...))\<close> of the file, with the values
  that the message prints. A status code is an \<^verbatim>\<open>int\<close>; the \<^verbatim>\<open>%v\<close> of a nil error is
  \<open>None\<close>.
\<close>

datatype error =
    MethodNotSpecified
  | NoURL
  | NoResponseObject
  | MarshalFailed string string string string
  | NewRequestFailed string string string string
  | InvokeFailed string string string "string option"
  | ReadFailed string string int "string option"
  | BadStatus string string int string
  | DemarshalFailed string string string string
  | ErrorMessage string string "string option" string
  | UnknownResponseType response string string string
  | InvalidVersionString string
  | ExpectingOneWorkload nat
  | ExpectingOneMicroservice nat
  | UnableToVerify string Version_Expression string
  | ExpectingOneElement WorkloadDefinition nat
  | UnableToCreateExpression string string
  | UnableToFindMicroservice APISpec Version_Expression
  | OrganizationNotFound string

subsection \<open>The HTTP client and the world\<close>

text \<open>
  An \<^verbatim>\<open>http.Request\<close> as \<^verbatim>\<open>InvokeExchange\<close> builds it; \<^verbatim>\<open>Header.Add\<close> appends to the
  list of headers.
\<close>

record request =
  rq_Method :: string
  rq_URL :: string
  rq_Body :: string
  rq_Close :: bool
  rq_Header :: "(string \<times> string) list"

text \<open>
  An \<^verbatim>\<open>http.Response\<close>: the status code and the body; \<open>None\<close> is a nil body, and
  \<open>Some (bytes, readErr)\<close> is what \<^verbatim>\<open>ioutil.ReadAll\<close> returns on the body.
\<close>

record http_response =
  StatusCode :: int
  Body :: "(string \<times> string option) option"

text \<open>
  What the code takes from outside the repository, as parameters: \<^verbatim>\<open>json.Marshal\<close> (on
  a request body, here a string that stands for the Go value), the error of
  \<^verbatim>\<open>http.NewRequest\<close> on a method and a URL, if any, \<^verbatim>\<open>httpClient.Do\<close> (the answer of the
  network to the \<open>n\<close>-th request of the run is \<open>Do n\<close>, the text of an error or a
  response) and \<^verbatim>\<open>json.Unmarshal\<close> (on the body and the response object to fill).
  \<^verbatim>\<open>httpClient.Do\<close> reads the body of the request from the buffer \<^verbatim>\<open>requestBody\<close>;
  \<open>Do_read n\<close> is the number of bytes that it has read when it returns, which the
  code does not decide (none when the connection fails, all of them when the request
  was written out).
\<close>

record env =
  json_Marshal :: "string \<Rightarrow> string + string"
  NewRequest_error :: "string \<Rightarrow> string \<Rightarrow> string option"
  Do :: "nat \<Rightarrow> request \<Rightarrow> string + http_response"
  Do_read :: "nat \<Rightarrow> request \<Rightarrow> nat"
  json_Unmarshal :: "string \<Rightarrow> response \<Rightarrow> string + response"

text \<open>
  The effects of a call: the requests sent so far, oldest first, and the seconds spent
  in \<^verbatim>\<open>time.Sleep\<close>.
\<close>

record world =
  sent :: "request list"
  slept :: nat

subsection \<open>InvokeExchange\<close>

text \<open>\<^verbatim>\<open>isTimeout\<close> (lines 996 to 998).\<close>

definition isTimeout :: "string \<Rightarrow> bool" where
  "isTimeout err = (Contains (ToLower err) ''time'' \<and> Contains (ToLower err) ''out'')"

text \<open>
  Lines 888 to 898: \<^verbatim>\<open>http.NewRequest\<close> and the headers. \<open>Inl\<close> is the error of
  \<^verbatim>\<open>http.NewRequest\<close>.
\<close>

definition InvokeExchange_request ::
  "env \<Rightarrow> string \<Rightarrow> string \<Rightarrow> string \<Rightarrow> string
      \<Rightarrow> string \<Rightarrow> string + request" where
  "InvokeExchange_request env method url user pw requestBody =
     (case NewRequest_error env method url of
        Some e \<Rightarrow> Inl e
      | None \<Rightarrow>
          Inr \<lparr>rq_Method = method, rq_URL = url, rq_Body = requestBody, rq_Close = True,
               rq_Header =
                 [(''Accept'', ''application/json'')]
                 @ (if method \<noteq> ''GET'' then [(''Content-Type'', ''application/json'')]
                     else [])
                 @ (if user \<noteq> [] \<and> pw \<noteq> []
                    then [(''Authorization'', ''Basic '' @ user @ '':'' @ pw)] else [])\<rparr>)"

text \<open>
  Lines 942 to 989: the switch on the type of the response object, after
  \<^verbatim>\<open>json.Unmarshal\<close> has filled it.
\<close>

fun InvokeExchange_switch ::
  "string \<Rightarrow> string \<Rightarrow> string option \<Rightarrow> string \<Rightarrow>
      response \<Rightarrow> error option \<times> error option" where
  "InvokeExchange_switch method url params requestBody (PostDeviceResponse code msg) =
     (if code \<noteq> ''ok'' then (Some (ErrorMessage method url params msg), None)
      else (None, None))"
| "InvokeExchange_switch method url params requestBody OtherResponse =
     (Some (UnknownResponseType OtherResponse method url requestBody), None)"
| "InvokeExchange_switch method url params requestBody r = (None, None)"

text \<open>
  Lines 911 to 914: \<^verbatim>\<open>outBytes\<close> and \<^verbatim>\<open>readErr\<close>, nil for a nil body, otherwise what
  \<^verbatim>\<open>ioutil.ReadAll\<close> returns.
\<close>

definition ReadAll_Body :: "http_response \<Rightarrow> string \<times> string option" where
  "ReadAll_Body httpResp = (case Body httpResp of None \<Rightarrow> ([], None) | Some x
      \<Rightarrow> x)"

text \<open>
  Lines 909 to 991: what \<^verbatim>\<open>InvokeExchange\<close> does with a response. \<open>err\<close> is the variable
  \<^verbatim>\<open>err\<close> of line 902, the error of \<^verbatim>\<open>httpClient.Do\<close>, which is nil on this branch; line
  914 tests it, not \<^verbatim>\<open>readErr\<close>. \<open>requestBody\<close> is what the buffer \<^verbatim>\<open>requestBody\<close> holds
  at this point, the bytes that \<^verbatim>\<open>httpClient.Do\<close> has not read: this is what the \<^verbatim>\<open>%v\<close>
  of lines 925 and 988 prints. The result is the pair of errors and the response
  object.
\<close>

definition InvokeExchange_response ::
  "env \<Rightarrow> string \<Rightarrow> string \<Rightarrow> string option \<Rightarrow> string
      \<Rightarrow> string option \<Rightarrow> http_response
     \<Rightarrow> response \<Rightarrow> (error option \<times> error option) \<times> response"
         where
  "InvokeExchange_response env method url params requestBody err httpResp resp =
     (let outBytes = fst (ReadAll_Body httpResp);
          readErr = snd (ReadAll_Body httpResp)
      in
      if Body httpResp \<noteq> None \<and> err \<noteq> None then
        (case err of
           Some e \<Rightarrow>
             (if isTimeout e
              then ((None, Some (ReadFailed method url (StatusCode httpResp) readErr)), resp)
              else ((Some (ReadFailed method url (StatusCode httpResp) readErr), None), resp))
         | None \<Rightarrow> ((None, None), resp))
      else if StatusCode httpResp = 500 \<and> Contains outBytes ''timed out'' then
        ((None, Some (InvokeFailed method url requestBody err)), resp)
      else if method = ''GET'' \<and> (StatusCode httpResp \<noteq> 200 \<and> StatusCode httpResp
          \<noteq> 404) then
        ((Some (BadStatus method url (StatusCode httpResp) outBytes), None), resp)
      else if (method = ''PUT'' \<or> method = ''POST'' \<or> method = ''PATCH'')
              \<and> StatusCode httpResp \<noteq> 201 then
        ((Some (BadStatus method url (StatusCode httpResp) outBytes), None), resp)
      else if method = ''DELETE'' \<and> StatusCode httpResp \<noteq> 204 then
        ((Some (BadStatus method url (StatusCode httpResp) outBytes), None), resp)
      else if method = ''DELETE'' then ((None, None), resp)
      else
        (case json_Unmarshal env outBytes resp of
           Inl e \<Rightarrow> ((Some (DemarshalFailed outBytes method url e), None), resp)
         | Inr r \<Rightarrow> (InvokeExchange_switch method url params requestBody r, r)))"

text \<open>Lines 880 to 887: the body of the request, empty for nil
    \<^verbatim>\<open>params\<close>.\<close>

definition InvokeExchange_body :: "env \<Rightarrow> string option \<Rightarrow> string + string"
    where
  "InvokeExchange_body env params =
     (case params of None \<Rightarrow> Inr [] | Some p \<Rightarrow> json_Marshal env p)"

text \<open>
  \<^verbatim>\<open>InvokeExchange\<close> (lines 868 to 994). \<open>params\<close> and \<open>resp\<close> are \<open>None\<close> when nil. The
  result is the pair (application error, transport error), the response object and
  the world, which has the request appended once \<^verbatim>\<open>httpClient.Do\<close> was called. The
  messages of lines 904, 906, 925 and 988 print the buffer \<^verbatim>\<open>requestBody\<close> after
  \<^verbatim>\<open>httpClient.Do\<close> has read from it: they carry the rest of the body.
\<close>

definition InvokeExchange ::
  "env \<Rightarrow> string \<Rightarrow> string \<Rightarrow> string \<Rightarrow> string
      \<Rightarrow> string option \<Rightarrow> response option \<Rightarrow> world
     \<Rightarrow> (error option \<times> error option) \<times> response option \<times> world"
         where
  "InvokeExchange env method url user pw params resp w =
     (if length method = 0 then ((Some MethodNotSpecified, None), resp, w)
      else if length url = 0 then ((Some NoURL, None), resp, w)
      else
        (case resp of
           None \<Rightarrow> ((Some NoResponseObject, None), resp, w)
         | Some r \<Rightarrow>
             (case InvokeExchange_body env params of
                Inl e \<Rightarrow>
                  ((Some (MarshalFailed method url (case params of None \<Rightarrow> [] | Some p
                      \<Rightarrow> p) e), None),
                   resp, w)
              | Inr requestBody \<Rightarrow>
                  (case InvokeExchange_request env method url user pw requestBody of
                     Inl e \<Rightarrow> ((Some (NewRequestFailed method url requestBody e),
                         None), resp, w)
                   | Inr req \<Rightarrow>
                       (case Do env (length (sent w)) req of
                          Inl e \<Rightarrow>
                            (if isTimeout e
                             then ((None, Some (InvokeFailed method url
                                      (drop (Do_read env (length (sent w)) req) requestBody)
                                      (Some e))),
                                   resp, w\<lparr>sent := sent w @ [req]\<rparr>)
                             else ((Some (InvokeFailed method url
                                      (drop (Do_read env (length (sent w)) req) requestBody)
                                      (Some e)), None),
                                   resp, w\<lparr>sent := sent w @ [req]\<rparr>))
                        | Inr httpResp \<Rightarrow>
                            (case InvokeExchange_response env method url params
                                    (drop (Do_read env (length (sent w)) req) requestBody)
                                    None httpResp r of
                               (errs, r') \<Rightarrow>
                                 (errs, Some r', w\<lparr>sent := sent w @ [req]\<rparr>)))))))"

subsection \<open>Looking up workloads and microservices\<close>

text \<open>
  A call that returns gives its results (\<open>Returns\<close>) or panics, as a dereference of
  a nil pointer or a failed type assertion does (\<open>Panics\<close>).
\<close>

datatype 'a go_result = Returns 'a | Panics

text \<open>\<^verbatim>\<open>getSearchVersion\<close> (lines 613 to 627).\<close>

definition getSearchVersion :: "string \<Rightarrow> error + string" where
  "getSearchVersion version =
     (if version = [] \<or> IsVersionExpression version then Inr []
      else if IsVersionString version then Inr version
      else Inl (InvalidVersionString version))"

text \<open>
  Lines 685 to 697: the loop over the map of workloads, with the variables
  \<^verbatim>\<open>highest\<close> and \<^verbatim>\<open>resWDef\<close>. \<open>vRange\<close> is \<open>None\<close> when the pointer is nil (the error of
  \<^verbatim>\<open>Version_Expression_Factory\<close> is dropped at lines 678 and 680), and a method that
  reads a nil range panics.
\<close>

fun GetWorkload_range ::
  "Version_Expression option \<Rightarrow> (string \<times> WorkloadDefinition) list \<Rightarrow>
      string
     \<Rightarrow> WorkloadDefinition \<Rightarrow> (WorkloadDefinition option \<times> error
         option) go_result" where
  "GetWorkload_range vRange [] highest resWDef = Returns (Some resWDef, None)"
| "GetWorkload_range None (e # rest) highest resWDef = Panics"
| "GetWorkload_range (Some vr) ((k, wDef) # rest) highest resWDef =
     (case Is_within_range vr (wd_Version wDef) of
        Inl err \<Rightarrow> Returns (None, Some (UnableToVerify (wd_Version wDef) vr err))
      | Inr inRange \<Rightarrow>
          (if inRange then
             (if strings_Compare highest (wd_Version wDef) = - 1
              then GetWorkload_range (Some vr) rest (wd_Version wDef) wDef
              else GetWorkload_range (Some vr) rest highest resWDef)
           else GetWorkload_range (Some vr) rest highest resWDef))"

text \<open>Lines 678 to 681: the range to search in.\<close>

definition search_range :: "string \<Rightarrow> Version_Expression option" where
  "search_range version =
     (case (if version \<noteq> [] then Version_Expression_Factory version
            else Version_Expression_Factory ''0.0.0'') of
        Inl err \<Rightarrow> None
      | Inr vr \<Rightarrow> Some vr)"

text \<open>
  Lines 657 to 698: what \<^verbatim>\<open>GetWorkload\<close> returns once \<^verbatim>\<open>InvokeExchange\<close> has succeeded.
\<close>

definition GetWorkload_found ::
  "string \<Rightarrow> string \<Rightarrow> response option
     \<Rightarrow> (WorkloadDefinition option \<times> error option) go_result" where
  "GetWorkload_found wVersion searchVersion resp =
     (case resp of
        Some (GetWorkloadsResponse workloadMetadata) \<Rightarrow>
          (if searchVersion \<noteq> [] then
             (if length workloadMetadata \<noteq> 1
              then Returns (None, Some (ExpectingOneWorkload (length workloadMetadata)))
              else Returns (Some (snd (hd workloadMetadata)), None))
           else
             (if length workloadMetadata = 0 then Returns (None, None)
              else GetWorkload_range (search_range wVersion) workloadMetadata []
                     zero_WorkloadDefinition))
      | _ \<Rightarrow> Panics)"

text \<open>
  Lines 648 to 700: the loop of \<^verbatim>\<open>GetWorkload\<close>. An application error is returned, a
  transport error is followed by a sleep of 10 seconds and another request.
\<close>

partial_function (option) GetWorkload_loop ::
  "env \<Rightarrow> string \<Rightarrow> string \<Rightarrow> string \<Rightarrow> string
      \<Rightarrow> string \<Rightarrow> response option \<Rightarrow> world
     \<Rightarrow> ((WorkloadDefinition option \<times> error option) go_result \<times> world)
         option" where
  "GetWorkload_loop env wVersion searchVersion targetURL id' token resp w =
     (case InvokeExchange env ''GET'' targetURL id' token None resp w of
        ((Some err, tpErr), resp', w') \<Rightarrow> Some (Returns (None, Some err), w')
      | ((None, Some tpErr), resp', w') \<Rightarrow>
          GetWorkload_loop env wVersion searchVersion targetURL id' token resp'
            (w'\<lparr>slept := slept w' + 10\<rparr>)
      | ((None, None), resp', w') \<Rightarrow>
          Some (GetWorkload_found wVersion searchVersion resp', w'))"

text \<open>Lines 643 to 646: the URL of the search for a workload.\<close>

definition workloads_URL :: "string \<Rightarrow> string \<Rightarrow> string \<Rightarrow> string
    \<Rightarrow> string \<Rightarrow> string" where
  "workloads_URL exURL wOrg wURL searchVersion wArch =
     (if searchVersion \<noteq> []
      then exURL @ ''orgs/'' @ wOrg @ ''/workloads?workloadUrl='' @ wURL
             @ ''&version='' @ searchVersion @ ''&arch='' @ wArch
      else exURL @ ''orgs/'' @ wOrg @ ''/workloads?workloadUrl='' @ wURL
             @ ''&arch='' @ wArch)"

text \<open>\<^verbatim>\<open>GetWorkload\<close> (lines 629 to 701).\<close>

definition GetWorkload ::
  "env \<Rightarrow> string \<Rightarrow> string \<Rightarrow> string \<Rightarrow> string
      \<Rightarrow> string \<Rightarrow> string \<Rightarrow> string \<Rightarrow> world
     \<Rightarrow> ((WorkloadDefinition option \<times> error option) go_result \<times> world)
         option" where
  "GetWorkload env wURL wOrg wVersion wArch exURL id' token w =
     (case getSearchVersion wVersion of
        Inl err \<Rightarrow> Some (Returns (None, Some err), w)
      | Inr searchVersion \<Rightarrow>
          GetWorkload_loop env wVersion searchVersion
            (workloads_URL exURL wOrg wURL searchVersion wArch)
            id' token (Some (GetWorkloadsResponse [])) w)"

text \<open>Lines 756 to 768: the loop over the map of microservices.\<close>

fun GetMicroservice_range ::
  "Version_Expression option \<Rightarrow> (string \<times> MicroserviceDefinition) list
      \<Rightarrow> string
     \<Rightarrow> MicroserviceDefinition \<Rightarrow> (MicroserviceDefinition option \<times>
         error option) go_result" where
  "GetMicroservice_range vRange [] highest resMsDef = Returns (Some resMsDef, None)"
| "GetMicroservice_range None (e # rest) highest resMsDef = Panics"
| "GetMicroservice_range (Some vr) ((k, msDef) # rest) highest resMsDef =
     (case Is_within_range vr (md_Version msDef) of
        Inl err \<Rightarrow> Returns (None, Some (UnableToVerify (md_Version msDef) vr err))
      | Inr inRange \<Rightarrow>
          (if inRange then
             (if strings_Compare highest (md_Version msDef) = - 1
              then GetMicroservice_range (Some vr) rest (md_Version msDef) msDef
              else GetMicroservice_range (Some vr) rest highest resMsDef)
           else GetMicroservice_range (Some vr) rest highest resMsDef))"

text \<open>
  Lines 731 to 769: what \<^verbatim>\<open>GetMicroservice\<close> returns once \<^verbatim>\<open>InvokeExchange\<close> has
  succeeded.
\<close>

definition GetMicroservice_found ::
  "string \<Rightarrow> string \<Rightarrow> response option
     \<Rightarrow> (MicroserviceDefinition option \<times> error option) go_result" where
  "GetMicroservice_found mVersion searchVersion resp =
     (case resp of
        Some (GetMicroservicesResponse msMetadata) \<Rightarrow>
          (if searchVersion \<noteq> [] then
             (if length msMetadata \<noteq> 1
              then Returns (None, Some (ExpectingOneMicroservice (length msMetadata)))
              else Returns (Some (snd (hd msMetadata)), None))
           else GetMicroservice_range (search_range mVersion) msMetadata []
                  zero_MicroserviceDefinition)
      | _ \<Rightarrow> Panics)"

text \<open>Lines 722 to 771: the loop of \<^verbatim>\<open>GetMicroservice\<close>.\<close>

partial_function (option) GetMicroservice_loop ::
  "env \<Rightarrow> string \<Rightarrow> string \<Rightarrow> string \<Rightarrow> string
      \<Rightarrow> string \<Rightarrow> response option \<Rightarrow> world
     \<Rightarrow> ((MicroserviceDefinition option \<times> error option) go_result \<times>
         world) option" where
  "GetMicroservice_loop env mVersion searchVersion targetURL id' token resp w =
     (case InvokeExchange env ''GET'' targetURL id' token None resp w of
        ((Some err, tpErr), resp', w') \<Rightarrow> Some (Returns (None, Some err), w')
      | ((None, Some tpErr), resp', w') \<Rightarrow>
          GetMicroservice_loop env mVersion searchVersion targetURL id' token resp'
            (w'\<lparr>slept := slept w' + 10\<rparr>)
      | ((None, None), resp', w') \<Rightarrow>
          Some (GetMicroservice_found mVersion searchVersion resp', w'))"

text \<open>Lines 717 to 720: the URL of the search for a microservice.\<close>

definition microservices_URL :: "string \<Rightarrow> string \<Rightarrow> string \<Rightarrow>
    string \<Rightarrow> string \<Rightarrow> string" where
  "microservices_URL exURL mOrg mURL searchVersion mArch =
     (if searchVersion \<noteq> []
      then exURL @ ''orgs/'' @ mOrg @ ''/microservices?specRef='' @ mURL
             @ ''&version='' @ searchVersion @ ''&arch='' @ mArch
      else exURL @ ''orgs/'' @ mOrg @ ''/microservices?specRef='' @ mURL
             @ ''&arch='' @ mArch)"

text \<open>\<^verbatim>\<open>GetMicroservice\<close> (lines 703 to 772).\<close>

definition GetMicroservice ::
  "env \<Rightarrow> string \<Rightarrow> string \<Rightarrow> string \<Rightarrow> string
      \<Rightarrow> string \<Rightarrow> string \<Rightarrow> string \<Rightarrow> world
     \<Rightarrow> ((MicroserviceDefinition option \<times> error option) go_result \<times>
         world) option" where
  "GetMicroservice env mURL mOrg mVersion mArch exURL id' token w =
     (case getSearchVersion mVersion of
        Inl err \<Rightarrow> Some (Returns (None, Some err), w)
      | Inr searchVersion \<Rightarrow>
          GetMicroservice_loop env mVersion searchVersion
            (microservices_URL exURL mOrg mURL searchVersion mArch)
            id' token (Some (GetMicroservicesResponse [])) w)"

subsection \<open>WorkloadResolver\<close>

text \<open>
  Lines 798 to 809: the loop over the API specs of the workload; the result is the
  error that ends \<^verbatim>\<open>WorkloadResolver\<close>, if any.
\<close>

fun WorkloadResolver_microservices ::
  "env \<Rightarrow> APISpec list \<Rightarrow> string \<Rightarrow> string \<Rightarrow> string
      \<Rightarrow> world
     \<Rightarrow> (error option go_result \<times> world) option" where
  "WorkloadResolver_microservices env [] exURL id' token w = Some (Returns None, w)"
| "WorkloadResolver_microservices env (apiSpec # rest) exURL id' token w =
     (case Version_Expression_Factory (as_Version apiSpec) of
        Inl err \<Rightarrow>
          Some (Returns (Some (UnableToCreateExpression (as_Version apiSpec) err)), w)
      | Inr vExp \<Rightarrow>
          (case GetMicroservice env (as_SpecRef apiSpec) (as_Org apiSpec) (Get_expression vExp)
                  (as_Arch apiSpec) exURL id' token w of
             None \<Rightarrow> None
           | Some (Panics, w') \<Rightarrow> Some (Panics, w')
           | Some (Returns (ms, Some err), w') \<Rightarrow> Some (Returns (Some err), w')
           | Some (Returns (None, None), w') \<Rightarrow>
               Some (Returns (Some (UnableToFindMicroservice apiSpec vExp)), w')
           | Some (Returns (Some ms, None), w') \<Rightarrow>
               WorkloadResolver_microservices env rest exURL id' token w'))"

text \<open>
  \<^verbatim>\<open>WorkloadResolver\<close> (lines 777 to 821). Line 785 reads \<^verbatim>\<open>workload.Workloads\<close>, which
  panics on a nil \<^verbatim>\<open>workload\<close>.
\<close>

definition WorkloadResolver ::
  "env \<Rightarrow> string \<Rightarrow> string \<Rightarrow> string \<Rightarrow> string
      \<Rightarrow> string \<Rightarrow> string \<Rightarrow> string \<Rightarrow> world
     \<Rightarrow> ((APISpecList option \<times> error option) go_result \<times> world) option"
         where
  "WorkloadResolver env wURL wOrg wVersion wArch exURL id' token w =
     (let resolveMicroservices = True in
      case GetWorkload env wURL wOrg wVersion wArch exURL id' token w of
        None \<Rightarrow> None
      | Some (Panics, w1) \<Rightarrow> Some (Panics, w1)
      | Some (Returns (workload, Some err), w1) \<Rightarrow> Some (Returns (None, Some err), w1)
      | Some (Returns (None, None), w1) \<Rightarrow> Some (Panics, w1)
      | Some (Returns (Some workload, None), w1) \<Rightarrow>
          (if length (wd_Workloads workload) \<noteq> 1
           then Some (Returns (None, Some (ExpectingOneElement workload
                                             (length (wd_Workloads workload)))), w1)
           else
             (case (if resolveMicroservices
                    then WorkloadResolver_microservices env (wd_APISpecs workload) exURL id' token
                        w1
                    else Some (Returns None, w1)) of
                None \<Rightarrow> None
              | Some (Panics, w2) \<Rightarrow> Some (Panics, w2)
              | Some (Returns (Some err), w2) \<Rightarrow> Some (Returns (None, Some err), w2)
              | Some (Returns None, w2) \<Rightarrow>
                  Some (Returns
                         (Some (map (\<lambda>apiSpec. APISpecification_Factory (as_SpecRef apiSpec)
                                       (as_Org apiSpec) (as_Version apiSpec) (as_Arch apiSpec))
                                  (wd_APISpecs workload)), None), w2))))"

subsection \<open>Organizations and blockchain clients\<close>

text \<open>
  Lines 855 to 861: the lookup of the organization in the map \<^verbatim>\<open>Orgs\<close> of the response.
\<close>

definition GetOrganization_found ::
  "string \<Rightarrow> response option \<Rightarrow> (Organization option \<times> error option)
      go_result" where
  "GetOrganization_found org resp =
     (case resp of
        Some (GetOrganizationResponse orgs) \<Rightarrow>
          (case map_of orgs org of
             None \<Rightarrow> Returns (None, Some (OrganizationNotFound org))
           | Some theOrg \<Rightarrow> Returns (Some theOrg, None))
      | _ \<Rightarrow> Panics)"

text \<open>Lines 846 to 863: the loop of \<^verbatim>\<open>GetOrganization\<close>.\<close>

partial_function (option) GetOrganization_loop ::
  "env \<Rightarrow> string \<Rightarrow> string \<Rightarrow> string \<Rightarrow> string
      \<Rightarrow> response option \<Rightarrow> world
     \<Rightarrow> ((Organization option \<times> error option) go_result \<times> world) option"
         where
  "GetOrganization_loop env org targetURL id' token resp w =
     (case InvokeExchange env ''GET'' targetURL id' token None resp w of
        ((Some err, tpErr), resp', w') \<Rightarrow> Some (Returns (None, Some err), w')
      | ((None, Some tpErr), resp', w') \<Rightarrow>
          GetOrganization_loop env org targetURL id' token resp' (w'\<lparr>slept := slept w' +
              10\<rparr>)
      | ((None, None), resp', w') \<Rightarrow> Some (GetOrganization_found org resp', w'))"

text \<open>Line 844: the URL of an organization.\<close>

definition organization_URL :: "string \<Rightarrow> string \<Rightarrow> string" where
  "organization_URL exURL org = exURL @ ''orgs/'' @ org"

text \<open>\<^verbatim>\<open>GetOrganization\<close> (lines 836 to 865).\<close>

definition GetOrganization ::
  "env \<Rightarrow> string \<Rightarrow> string \<Rightarrow> string \<Rightarrow> string
      \<Rightarrow> world
     \<Rightarrow> ((Organization option \<times> error option) go_result \<times> world) option"
         where
  "GetOrganization env org exURL id' token w =
     GetOrganization_loop env org (organization_URL exURL org) id' token
       (Some (GetOrganizationResponse [])) w"

text \<open>
  Line 451: \<^verbatim>\<open>Blockchains[chainName].Details\<close>; a key that the map lacks reads as the
  zero value, whose \<^verbatim>\<open>Details\<close> is the empty string.
\<close>

definition GetEthereumClient_found ::
  "string \<Rightarrow> response option \<Rightarrow> (string \<times> error option) go_result"
      where
  "GetEthereumClient_found chainName resp =
     (case resp of
        Some (GetEthereumClientResponse blockchains) \<Rightarrow>
          (case map_of blockchains chainName of
             None \<Rightarrow> Returns ([], None)
           | Some b \<Rightarrow> Returns (bc_Details b, None))
      | _ \<Rightarrow> Panics)"

text \<open>Lines 441 to 454: the loop of \<^verbatim>\<open>GetEthereumClient\<close>.\<close>

partial_function (option) GetEthereumClient_loop ::
  "env \<Rightarrow> string \<Rightarrow> string \<Rightarrow> string \<Rightarrow> string
      \<Rightarrow> response option \<Rightarrow> world
     \<Rightarrow> ((string \<times> error option) go_result \<times> world) option" where
  "GetEthereumClient_loop env chainName targetURL deviceId token resp w =
     (case InvokeExchange env ''GET'' targetURL deviceId token None resp w of
        ((Some err, tpErr), resp', w') \<Rightarrow> Some (Returns ([], Some err), w')
      | ((None, Some tpErr), resp', w') \<Rightarrow>
          GetEthereumClient_loop env chainName targetURL deviceId token resp'
            (w'\<lparr>slept := slept w' + 10\<rparr>)
      | ((None, None), resp', w') \<Rightarrow> Some (GetEthereumClient_found chainName resp', w'))"

text \<open>Line 440: the URL of the metadata of a blockchain client.\<close>

definition blockchain_URL :: "string \<Rightarrow> string \<Rightarrow> string \<Rightarrow>
    string \<Rightarrow> string" where
  "blockchain_URL url org chainType chainName =
     url @ ''orgs/'' @ org @ ''/bctypes/'' @ chainType @ ''/blockchains/'' @ chainName"

text \<open>\<^verbatim>\<open>GetEthereumClient\<close> (lines 434 to 456).\<close>

definition GetEthereumClient ::
  "env \<Rightarrow> string \<Rightarrow> string \<Rightarrow> string \<Rightarrow> string
      \<Rightarrow> string \<Rightarrow> string \<Rightarrow> world
     \<Rightarrow> ((string \<times> error option) go_result \<times> world) option" where
  "GetEthereumClient env url org chainName chainType deviceId token w =
     GetEthereumClient_loop env chainName (blockchain_URL url org chainType chainName)
       deviceId token (Some (GetEthereumClientResponse [])) w"

subsection \<open>Retries\<close>

text \<open>
  The branch \<^verbatim>\<open>else if tpErr != nil\<close> of the four loops: the call of \<^verbatim>\<open>InvokeExchange\<close>
  gave no application error and a transport error.
\<close>

definition transport_failed ::
  "(error option \<times> error option) \<times> response option \<times> world \<Rightarrow>
      bool" where
  "transport_failed out = (fst (fst out) = None \<and> snd (fst out) \<noteq> None)"

text \<open>
  The world after one pass through that branch: the \<^verbatim>\<open>GET\<close> request was sent and the
  loop slept for 10 seconds.
\<close>

definition retry_step ::
  "env \<Rightarrow> string \<Rightarrow> string \<Rightarrow> string \<Rightarrow> response
      option \<Rightarrow> world \<Rightarrow> world" where
  "retry_step env targetURL id' token resp w =
     (let w' = snd (snd (InvokeExchange env ''GET'' targetURL id' token None resp w))
      in w'\<lparr>slept := slept w' + 10\<rparr>)"

text \<open>
  The loop settles after \<open>k\<close> retries: the first \<open>k\<close> calls of \<^verbatim>\<open>InvokeExchange\<close> fail
  with a transport error and the next one does not.
\<close>

definition settles_after ::
  "env \<Rightarrow> string \<Rightarrow> string \<Rightarrow> string \<Rightarrow> response
      option \<Rightarrow> world \<Rightarrow> nat \<Rightarrow> bool" where
  "settles_after env targetURL id' token resp w k =
     ((\<forall>j<k. transport_failed (InvokeExchange env ''GET'' targetURL id' token None resp
                 ((retry_step env targetURL id' token resp ^^ j) w)))
      \<and> \<not> transport_failed (InvokeExchange env ''GET'' targetURL id' token None resp
                 ((retry_step env targetURL id' token resp ^^ k) w)))"

text \<open>
  An error that some call of \<^verbatim>\<open>InvokeExchange\<close> returns as its transport error (its second
  result).
\<close>

definition is_transport_error :: "error \<Rightarrow> bool" where
  "is_transport_error e =
     (\<exists>env method url user pw params resp w.
        snd (fst (InvokeExchange env method url user pw params resp w)) = Some e)"

text \<open>
  The expected status of each method, in the words of the spec: \<open>GET \<rightarrow> 200 \<or> 404\<close>,
  \<open>PUT|POST|PATCH \<rightarrow> 201\<close>, \<open>DELETE \<rightarrow> 204\<close>.
\<close>

definition status_matrix :: "string \<Rightarrow> int \<Rightarrow> bool" where
  "status_matrix method status =
     (method = ''GET'' \<and> (status = 200 \<or> status = 404)
      \<or> (method = ''PUT'' \<or> method = ''POST'' \<or> method = ''PATCH'') \<and> status = 201
      \<or> method = ''DELETE'' \<and> status = 204)"

text \<open>The methods that the matrix names.\<close>

definition matrix_methods :: "string list" where
  "matrix_methods = [''GET'', ''PUT'', ''POST'', ''PATCH'', ''DELETE'']"

text \<open>
  The credentials of HTTP Basic authentication, in the words of the spec, as RFC 7617
  defines them: the scheme \<^verbatim>\<open>Basic\<close>, a blank, and the base64 encoding (RFC 4648) of
  the user, a colon and the password. This is the side of the spec; what the code
  writes into the header is in \<open>InvokeExchange_request\<close>.
\<close>

definition base64_alphabet :: string where
  "base64_alphabet = ''ABCDEFGHIJKLMNOPQRSTUVWXYZabcdefghijklmnopqrstuvwxyz0123456789+/''"

definition base64_digit :: "nat \<Rightarrow> char" where
  "base64_digit n = base64_alphabet ! (n mod 64)"

fun base64_encode :: "string \<Rightarrow> string" where
  "base64_encode (a # b # c # rest) =
     [base64_digit ((of_char a :: nat) div 4),
      base64_digit ((of_char a :: nat) mod 4 * 16 + of_char b div 16),
      base64_digit ((of_char b :: nat) mod 16 * 4 + of_char c div 64),
      base64_digit ((of_char c :: nat) mod 64)] @ base64_encode rest"
| "base64_encode [a, b] =
     [base64_digit ((of_char a :: nat) div 4),
      base64_digit ((of_char a :: nat) mod 4 * 16 + of_char b div 16),
      base64_digit ((of_char b :: nat) mod 16 * 4), CHR ''='']"
| "base64_encode [a] =
     [base64_digit ((of_char a :: nat) div 4), base64_digit ((of_char a :: nat) mod 4 * 16),
      CHR ''='', CHR ''='']"
| "base64_encode [] = []"

definition http_basic_credentials :: "string \<Rightarrow> string \<Rightarrow> string" where
  "http_basic_credentials user pw = ''Basic '' @ base64_encode (user @ '':'' @ pw)"

subsection \<open>Example exchanges\<close>

text \<open>A world in which nothing has happened yet.\<close>

definition world0 :: world where
  "world0 = \<lparr>sent = [], slept = 0\<rparr>"

text \<open>
  A network that gives the same answer to every request, after it has read the whole
  body of the request; \<^verbatim>\<open>json.Marshal\<close> and \<^verbatim>\<open>json.Unmarshal\<close> succeed, and
  \<^verbatim>\<open>json.Unmarshal\<close> leaves the response object as it is.
\<close>

definition network_answering :: "string + http_response \<Rightarrow> env" where
  "network_answering answer =
     \<lparr>json_Marshal = (\<lambda>p. Inr p),
      NewRequest_error = (\<lambda>m u. None),
      Do = (\<lambda>n rq. answer),
      Do_read = (\<lambda>n rq. length (rq_Body rq)),
      json_Unmarshal = (\<lambda>b r. Inr r)\<rparr>"

text \<open>
  An Exchange that answers every request with status 200 and holds the workloads \<open>ws\<close>
  and the microservices \<open>ms\<close>, whatever the query.
\<close>

definition example_exchange ::
  "(string \<times> WorkloadDefinition) list \<Rightarrow> (string \<times>
      MicroserviceDefinition) list \<Rightarrow> env" where
  "example_exchange ws ms =
     \<lparr>json_Marshal = (\<lambda>p. Inr p),
      NewRequest_error = (\<lambda>m u. None),
      Do = (\<lambda>n rq. Inr \<lparr>StatusCode = 200, Body = Some (''{}'', None)\<rparr>),
      Do_read = (\<lambda>n rq. length (rq_Body rq)),
      json_Unmarshal = (\<lambda>b r. case r of
          GetWorkloadsResponse x \<Rightarrow> Inr (GetWorkloadsResponse ws)
        | GetMicroservicesResponse x \<Rightarrow> Inr (GetMicroservicesResponse ms)
        | _ \<Rightarrow> Inr r)\<rparr>"

text \<open>
  The same Exchange behind a network on which the first \<open>n\<close> requests of the run time
  out.
\<close>

definition flaky_exchange ::
  "nat \<Rightarrow> (string \<times> WorkloadDefinition) list \<Rightarrow> (string \<times>
      MicroserviceDefinition) list \<Rightarrow> env" where
  "flaky_exchange n ws ms =
     (example_exchange ws ms)
       \<lparr>Do := (\<lambda>k rq. if k < n then Inl
           ''net/http: request canceled (Client.Timeout exceeded)''
                       else Inr \<lparr>StatusCode = 200, Body = Some (''{}'',
                           None)\<rparr>)\<rparr>"

text \<open>
  A workload of version \<open>v\<close> with the API specs \<open>specs\<close> and \<open>n\<close> deployments, and a
  microservice of version \<open>v\<close>.
\<close>

definition example_workload :: "string \<Rightarrow> APISpec list \<Rightarrow> nat \<Rightarrow>
    WorkloadDefinition" where
  "example_workload v specs n =
     zero_WorkloadDefinition\<lparr>wd_Version := v, wd_APISpecs := specs,
       wd_Workloads := replicate n
         \<lparr>wdp_Deployment = [], wdp_DeploymentSignature = [], wdp_Torrent =
             []\<rparr>\<rparr>"

definition example_microservice :: "string \<Rightarrow> MicroserviceDefinition" where
  "example_microservice v = zero_MicroserviceDefinition\<lparr>md_Version := v\<rparr>"

section \<open>Properties\<close>

subsection \<open>The two errors of InvokeExchange\<close>

lemma InvokeExchange_body_None [simp]: "InvokeExchange_body env None = Inr []"
  by (simp add: InvokeExchange_body_def)

lemma switch_no_transport: "snd (InvokeExchange_switch m u ps rb r) = None"
  by (cases r) auto

lemma response_transport_iff:
  "snd (fst (InvokeExchange_response env m u ps rb None h r)) \<noteq> None \<longleftrightarrow>
     StatusCode h = 500 \<and> Contains (fst (ReadAll_Body h)) ''timed out''"
  by (simp add: InvokeExchange_response_def Let_def switch_no_transport split: sum.splits)

lemma response_transport_keeps:
  "snd (fst (InvokeExchange_response env m u ps rb None h r)) \<noteq> None \<Longrightarrow>
   snd (InvokeExchange_response env m u ps rb None h r) = r"
  by (simp add: InvokeExchange_response_def Let_def switch_no_transport
        split: sum.splits if_splits)

lemma response_one_error:
  "fst (fst (InvokeExchange_response env m u ps rb None h r)) = None \<or>
   snd (fst (InvokeExchange_response env m u ps rb None h r)) = None"
  by (simp add: InvokeExchange_response_def Let_def switch_no_transport split: sum.splits)

lemma InvokeExchange_slept:
  "slept (snd (snd (InvokeExchange env m u us pw ps resp w))) = slept w"
  by (simp add: InvokeExchange_def split: sum.splits option.splits prod.splits)

lemma InvokeExchange_one_error:
  "fst (fst (InvokeExchange env m u us pw ps resp w)) = None \<or>
   snd (fst (InvokeExchange env m u us pw ps resp w)) = None"
proof -
  have "\<And>rb h r x y. InvokeExchange_response env m u ps rb None h r = (x, y)
          \<Longrightarrow> fst x = None \<or> snd x = None"
    using response_one_error by (metis fst_conv)
  then show ?thesis
    by (auto simp: InvokeExchange_def split: sum.splits option.splits prod.splits)
qed

lemma InvokeExchange_transport_keeps:
  assumes "snd (fst (InvokeExchange env m u us pw ps resp w)) \<noteq> None"
  shows "fst (snd (InvokeExchange env m u us pw ps resp w)) = resp"
proof -
  have "\<And>rb h r x y. InvokeExchange_response env m u ps rb None h r = (x, y)
          \<Longrightarrow> snd x \<noteq> None \<Longrightarrow> y = r"
    using response_transport_keeps by (metis fst_conv snd_conv)
  then show ?thesis
    using assms
    by (auto simp: InvokeExchange_def split: sum.splits option.splits prod.splits if_splits)
qed

lemma transport_failedE:
  assumes "transport_failed (InvokeExchange env m u i t ps resp w)"
  obtains tp where "InvokeExchange env m u i t ps resp w =
      ((None, Some tp), resp, snd (snd (InvokeExchange env m u i t ps resp w)))"
proof -
  obtain a b r' w' where eq: "InvokeExchange env m u i t ps resp w = ((a, b), r', w')"
    by (metis prod.collapse)
  from assms eq have a: "a = None" and b: "b \<noteq> None"
    by (simp_all add: transport_failed_def)
  from b eq have "r' = resp"
    using InvokeExchange_transport_keeps[of env m u i t ps resp w] by simp
  with a b eq that show thesis by auto
qed

lemma not_transport_failed_cases:
  assumes "\<not> transport_failed (InvokeExchange env m u i t ps resp w)"
  shows "(\<exists>e r' w'. InvokeExchange env m u i t ps resp w = ((Some e, None), r', w')) \<or>
         (\<exists>r' w'. InvokeExchange env m u i t ps resp w = ((None, None), r', w'))"
proof -
  obtain a b r' w' where eq: "InvokeExchange env m u i t ps resp w = ((a, b), r', w')"
    by (metis prod.collapse)
  from InvokeExchange_one_error[of env m u i t ps resp w] eq have "a = None \<or> b = None"
    by simp
  with assms eq show ?thesis
    by (cases a; cases b) (auto simp: transport_failed_def)
qed

lemma slept_retry_step: "slept (retry_step env u i t resp w) = slept w + 10"
  by (simp add: retry_step_def Let_def InvokeExchange_slept)

lemma slept_retry_steps: "slept ((retry_step env u i t resp ^^ k) w) = slept w + 10 * k"
  by (induction k) (simp_all add: slept_retry_step)

subsection \<open>The loop of GetWorkload\<close>

lemma GetWorkload_loop_failed:
  assumes "transport_failed (InvokeExchange env ''GET'' u i t None resp w)"
  shows "GetWorkload_loop env v sv u i t resp w = GetWorkload_loop env v sv u i t resp (retry_step
      env u i t resp w)"
proof -
  from assms obtain tp where eq: "InvokeExchange env ''GET'' u i t None resp w =
      ((None, Some tp), resp, snd (snd (InvokeExchange env ''GET'' u i t None resp w)))"
    by (rule transport_failedE)
  show ?thesis
    by (subst GetWorkload_loop.simps, subst eq) (simp add: retry_step_def Let_def)
qed

lemma GetWorkload_loop_error:
  assumes "InvokeExchange env ''GET'' u i t None resp w = ((Some e, tp), r', w')"
  shows "GetWorkload_loop env v sv u i t resp w = Some (Returns (None, Some e), w')"
  by (subst GetWorkload_loop.simps) (simp add: assms)

lemma GetWorkload_loop_success:
  assumes "InvokeExchange env ''GET'' u i t None resp w = ((None, None), r', w')"
  shows "GetWorkload_loop env v sv u i t resp w = Some (GetWorkload_found v sv r', w')"
  by (subst GetWorkload_loop.simps) (simp add: assms)

lemma GetWorkload_loop_skip:
  "(\<And>j. j < k \<Longrightarrow>
      transport_failed (InvokeExchange env ''GET'' u i t None resp ((retry_step env u i t resp ^^
          j) w)))
   \<Longrightarrow> GetWorkload_loop env v sv u i t resp w
       = GetWorkload_loop env v sv u i t resp ((retry_step env u i t resp ^^ k) w)"
proof (induction k)
  case 0
  show ?case by simp
next
  case (Suc k)
  have "GetWorkload_loop env v sv u i t resp w
       = GetWorkload_loop env v sv u i t resp ((retry_step env u i t resp ^^ k) w)"
    using Suc.prems by (intro Suc.IH) simp
  also have "\<dots> = GetWorkload_loop env v sv u i t resp
                     (retry_step env u i t resp ((retry_step env u i t resp ^^ k) w))"
    using Suc.prems[of k] by (intro GetWorkload_loop_failed) simp
  finally show ?case by simp
qed

lemma GetWorkload_loop_returns:
  assumes "GetWorkload_loop env v sv u i t resp w = Some y"
  shows "\<exists>k. (\<forall>j<k. transport_failed
                 (InvokeExchange env ''GET'' u i t None resp ((retry_step env u i t resp ^^ j) w)))
            \<and> \<not> transport_failed
                 (InvokeExchange env ''GET'' u i t None resp ((retry_step env u i t resp ^^ k) w))"
proof (rule GetWorkload_loop.raw_induct[where P = "\<lambda>env v sv u i t resp w y.
    \<exists>k. (\<forall>j<k. transport_failed
                 (InvokeExchange env ''GET'' u i t None resp ((retry_step env u i t resp ^^ j) w)))
            \<and> \<not> transport_failed
                 (InvokeExchange env ''GET'' u i t None resp ((retry_step env u i t resp ^^ k) w))",
    OF _ assms])
  fix loop :: "env \<Rightarrow> string \<Rightarrow> string \<Rightarrow> string \<Rightarrow>
      string \<Rightarrow> string \<Rightarrow> response option \<Rightarrow> world \<Rightarrow>
          ((WorkloadDefinition option \<times> error option) go_result \<times> world) option" and
              env v sv u i t resp w y
  assume IH: "\<And>env v sv u i t resp w y. loop env v sv u i t resp w = Some y \<Longrightarrow>
    \<exists>k. (\<forall>j<k. transport_failed
                 (InvokeExchange env ''GET'' u i t None resp ((retry_step env u i t resp ^^ j) w)))
            \<and> \<not> transport_failed
                 (InvokeExchange env ''GET'' u i t None resp ((retry_step env u i t resp ^^ k) w))"
  assume body: "(case InvokeExchange env ''GET'' u i t None resp w of
      ((None, None), resp', w') \<Rightarrow> Some (GetWorkload_found v sv resp', w')
    | ((None, Some tpErra), resp', w') \<Rightarrow> loop env v sv u i t resp' (w'\<lparr>slept :=
        slept w' + 10\<rparr>)
    | ((Some err, tpErr), resp', w') \<Rightarrow> Some (Returns (None, Some err), w')) = Some y"
  show "\<exists>k. (\<forall>j<k. transport_failed
                 (InvokeExchange env ''GET'' u i t None resp ((retry_step env u i t resp ^^ j) w)))
            \<and> \<not> transport_failed
                 (InvokeExchange env ''GET'' u i t None resp ((retry_step env u i t resp ^^ k) w))"
  proof (cases "transport_failed (InvokeExchange env ''GET'' u i t None resp w)")
    case False
    then show ?thesis by (intro exI[of _ 0]) simp
  next
    case True
    then obtain tp where eq: "InvokeExchange env ''GET'' u i t None resp w =
      ((None, Some tp), resp, snd (snd (InvokeExchange env ''GET'' u i t None resp w)))"
      by (rule transport_failedE)
    have "loop env v sv u i t resp (retry_step env u i t resp w) = Some y"
      using body by (subst (asm) eq) (simp add: retry_step_def Let_def)
    from IH[OF this] obtain k where
      k: "\<forall>j<k. transport_failed (InvokeExchange env ''GET'' u i t None resp
             ((retry_step env u i t resp ^^ j) (retry_step env u i t resp w)))"
         "\<not> transport_failed (InvokeExchange env ''GET'' u i t None resp
             ((retry_step env u i t resp ^^ k) (retry_step env u i t resp w)))"
      by blast
    show ?thesis
    proof (intro exI[of _ "Suc k"] conjI allI impI)
      fix j assume "j < Suc k"
      show "transport_failed (InvokeExchange env ''GET'' u i t None resp
              ((retry_step env u i t resp ^^ j) w))"
      proof (cases j)
        case 0
        then show ?thesis using True by simp
      next
        case (Suc j')
        with \<open>j < Suc k\<close> k(1) show ?thesis by (simp add: funpow_swap1)
      qed
    next
      show "\<not> transport_failed (InvokeExchange env ''GET'' u i t None resp
              ((retry_step env u i t resp ^^ Suc k) w))"
        using k(2) by (simp add: funpow_swap1)
    qed
  qed
qed

subsection \<open>The loop of GetMicroservice\<close>

lemma GetMicroservice_loop_failed:
  assumes "transport_failed (InvokeExchange env ''GET'' u i t None resp w)"
  shows "GetMicroservice_loop env v sv u i t resp w = GetMicroservice_loop env v sv u i t resp
      (retry_step env u i t resp w)"
proof -
  from assms obtain tp where eq: "InvokeExchange env ''GET'' u i t None resp w =
      ((None, Some tp), resp, snd (snd (InvokeExchange env ''GET'' u i t None resp w)))"
    by (rule transport_failedE)
  show ?thesis
    by (subst GetMicroservice_loop.simps, subst eq) (simp add: retry_step_def Let_def)
qed

lemma GetMicroservice_loop_error:
  assumes "InvokeExchange env ''GET'' u i t None resp w = ((Some e, tp), r', w')"
  shows "GetMicroservice_loop env v sv u i t resp w = Some (Returns (None, Some e), w')"
  by (subst GetMicroservice_loop.simps) (simp add: assms)

lemma GetMicroservice_loop_success:
  assumes "InvokeExchange env ''GET'' u i t None resp w = ((None, None), r', w')"
  shows "GetMicroservice_loop env v sv u i t resp w = Some (GetMicroservice_found v sv r', w')"
  by (subst GetMicroservice_loop.simps) (simp add: assms)

lemma GetMicroservice_loop_skip:
  "(\<And>j. j < k \<Longrightarrow>
      transport_failed (InvokeExchange env ''GET'' u i t None resp ((retry_step env u i t resp ^^
          j) w)))
   \<Longrightarrow> GetMicroservice_loop env v sv u i t resp w
       = GetMicroservice_loop env v sv u i t resp ((retry_step env u i t resp ^^ k) w)"
proof (induction k)
  case 0
  show ?case by simp
next
  case (Suc k)
  have "GetMicroservice_loop env v sv u i t resp w
       = GetMicroservice_loop env v sv u i t resp ((retry_step env u i t resp ^^ k) w)"
    using Suc.prems by (intro Suc.IH) simp
  also have "\<dots> = GetMicroservice_loop env v sv u i t resp
                     (retry_step env u i t resp ((retry_step env u i t resp ^^ k) w))"
    using Suc.prems[of k] by (intro GetMicroservice_loop_failed) simp
  finally show ?case by simp
qed

lemma GetMicroservice_loop_returns:
  assumes "GetMicroservice_loop env v sv u i t resp w = Some y"
  shows "\<exists>k. (\<forall>j<k. transport_failed
                 (InvokeExchange env ''GET'' u i t None resp ((retry_step env u i t resp ^^ j) w)))
            \<and> \<not> transport_failed
                 (InvokeExchange env ''GET'' u i t None resp ((retry_step env u i t resp ^^ k) w))"
proof (rule GetMicroservice_loop.raw_induct[where P = "\<lambda>env v sv u i t resp w y.
    \<exists>k. (\<forall>j<k. transport_failed
                 (InvokeExchange env ''GET'' u i t None resp ((retry_step env u i t resp ^^ j) w)))
            \<and> \<not> transport_failed
                 (InvokeExchange env ''GET'' u i t None resp ((retry_step env u i t resp ^^ k) w))",
    OF _ assms])
  fix loop :: "env \<Rightarrow> string \<Rightarrow> string \<Rightarrow> string \<Rightarrow>
      string \<Rightarrow> string \<Rightarrow> response option \<Rightarrow> world \<Rightarrow>
          ((MicroserviceDefinition option \<times> error option) go_result \<times> world) option"
              and env v sv u i t resp w y
  assume IH: "\<And>env v sv u i t resp w y. loop env v sv u i t resp w = Some y \<Longrightarrow>
    \<exists>k. (\<forall>j<k. transport_failed
                 (InvokeExchange env ''GET'' u i t None resp ((retry_step env u i t resp ^^ j) w)))
            \<and> \<not> transport_failed
                 (InvokeExchange env ''GET'' u i t None resp ((retry_step env u i t resp ^^ k) w))"
  assume body: "(case InvokeExchange env ''GET'' u i t None resp w of
      ((None, None), resp', w') \<Rightarrow> Some (GetMicroservice_found v sv resp', w')
    | ((None, Some tpErra), resp', w') \<Rightarrow> loop env v sv u i t resp' (w'\<lparr>slept :=
        slept w' + 10\<rparr>)
    | ((Some err, tpErr), resp', w') \<Rightarrow> Some (Returns (None, Some err), w')) = Some y"
  show "\<exists>k. (\<forall>j<k. transport_failed
                 (InvokeExchange env ''GET'' u i t None resp ((retry_step env u i t resp ^^ j) w)))
            \<and> \<not> transport_failed
                 (InvokeExchange env ''GET'' u i t None resp ((retry_step env u i t resp ^^ k) w))"
  proof (cases "transport_failed (InvokeExchange env ''GET'' u i t None resp w)")
    case False
    then show ?thesis by (intro exI[of _ 0]) simp
  next
    case True
    then obtain tp where eq: "InvokeExchange env ''GET'' u i t None resp w =
      ((None, Some tp), resp, snd (snd (InvokeExchange env ''GET'' u i t None resp w)))"
      by (rule transport_failedE)
    have "loop env v sv u i t resp (retry_step env u i t resp w) = Some y"
      using body by (subst (asm) eq) (simp add: retry_step_def Let_def)
    from IH[OF this] obtain k where
      k: "\<forall>j<k. transport_failed (InvokeExchange env ''GET'' u i t None resp
             ((retry_step env u i t resp ^^ j) (retry_step env u i t resp w)))"
         "\<not> transport_failed (InvokeExchange env ''GET'' u i t None resp
             ((retry_step env u i t resp ^^ k) (retry_step env u i t resp w)))"
      by blast
    show ?thesis
    proof (intro exI[of _ "Suc k"] conjI allI impI)
      fix j assume "j < Suc k"
      show "transport_failed (InvokeExchange env ''GET'' u i t None resp
              ((retry_step env u i t resp ^^ j) w))"
      proof (cases j)
        case 0
        then show ?thesis using True by simp
      next
        case (Suc j')
        with \<open>j < Suc k\<close> k(1) show ?thesis by (simp add: funpow_swap1)
      qed
    next
      show "\<not> transport_failed (InvokeExchange env ''GET'' u i t None resp
              ((retry_step env u i t resp ^^ Suc k) w))"
        using k(2) by (simp add: funpow_swap1)
    qed
  qed
qed

subsection \<open>The loop of GetOrganization\<close>

lemma GetOrganization_loop_failed:
  assumes "transport_failed (InvokeExchange env ''GET'' u i t None resp w)"
  shows "GetOrganization_loop env org u i t resp w = GetOrganization_loop env org u i t resp
      (retry_step env u i t resp w)"
proof -
  from assms obtain tp where eq: "InvokeExchange env ''GET'' u i t None resp w =
      ((None, Some tp), resp, snd (snd (InvokeExchange env ''GET'' u i t None resp w)))"
    by (rule transport_failedE)
  show ?thesis
    by (subst GetOrganization_loop.simps, subst eq) (simp add: retry_step_def Let_def)
qed

lemma GetOrganization_loop_error:
  assumes "InvokeExchange env ''GET'' u i t None resp w = ((Some e, tp), r', w')"
  shows "GetOrganization_loop env org u i t resp w = Some (Returns (None, Some e), w')"
  by (subst GetOrganization_loop.simps) (simp add: assms)

lemma GetOrganization_loop_success:
  assumes "InvokeExchange env ''GET'' u i t None resp w = ((None, None), r', w')"
  shows "GetOrganization_loop env org u i t resp w = Some (GetOrganization_found org r', w')"
  by (subst GetOrganization_loop.simps) (simp add: assms)

lemma GetOrganization_loop_skip:
  "(\<And>j. j < k \<Longrightarrow>
      transport_failed (InvokeExchange env ''GET'' u i t None resp ((retry_step env u i t resp ^^
          j) w)))
   \<Longrightarrow> GetOrganization_loop env org u i t resp w
       = GetOrganization_loop env org u i t resp ((retry_step env u i t resp ^^ k) w)"
proof (induction k)
  case 0
  show ?case by simp
next
  case (Suc k)
  have "GetOrganization_loop env org u i t resp w
       = GetOrganization_loop env org u i t resp ((retry_step env u i t resp ^^ k) w)"
    using Suc.prems by (intro Suc.IH) simp
  also have "\<dots> = GetOrganization_loop env org u i t resp
                     (retry_step env u i t resp ((retry_step env u i t resp ^^ k) w))"
    using Suc.prems[of k] by (intro GetOrganization_loop_failed) simp
  finally show ?case by simp
qed

lemma GetOrganization_loop_returns:
  assumes "GetOrganization_loop env org u i t resp w = Some y"
  shows "\<exists>k. (\<forall>j<k. transport_failed
                 (InvokeExchange env ''GET'' u i t None resp ((retry_step env u i t resp ^^ j) w)))
            \<and> \<not> transport_failed
                 (InvokeExchange env ''GET'' u i t None resp ((retry_step env u i t resp ^^ k) w))"
proof (rule GetOrganization_loop.raw_induct[where P = "\<lambda>env org u i t resp w y.
    \<exists>k. (\<forall>j<k. transport_failed
                 (InvokeExchange env ''GET'' u i t None resp ((retry_step env u i t resp ^^ j) w)))
            \<and> \<not> transport_failed
                 (InvokeExchange env ''GET'' u i t None resp ((retry_step env u i t resp ^^ k) w))",
    OF _ assms])
  fix loop :: "env \<Rightarrow> string \<Rightarrow> string \<Rightarrow> string \<Rightarrow>
      string \<Rightarrow> response option \<Rightarrow> world \<Rightarrow> ((Organization option
          \<times> error option) go_result \<times> world) option" and env org u i t resp w y
  assume IH: "\<And>env org u i t resp w y. loop env org u i t resp w = Some y \<Longrightarrow>
    \<exists>k. (\<forall>j<k. transport_failed
                 (InvokeExchange env ''GET'' u i t None resp ((retry_step env u i t resp ^^ j) w)))
            \<and> \<not> transport_failed
                 (InvokeExchange env ''GET'' u i t None resp ((retry_step env u i t resp ^^ k) w))"
  assume body: "(case InvokeExchange env ''GET'' u i t None resp w of
      ((None, None), resp', w') \<Rightarrow> Some (GetOrganization_found org resp', w')
    | ((None, Some tpErra), resp', w') \<Rightarrow> loop env org u i t resp' (w'\<lparr>slept :=
        slept w' + 10\<rparr>)
    | ((Some err, tpErr), resp', w') \<Rightarrow> Some (Returns (None, Some err), w')) = Some y"
  show "\<exists>k. (\<forall>j<k. transport_failed
                 (InvokeExchange env ''GET'' u i t None resp ((retry_step env u i t resp ^^ j) w)))
            \<and> \<not> transport_failed
                 (InvokeExchange env ''GET'' u i t None resp ((retry_step env u i t resp ^^ k) w))"
  proof (cases "transport_failed (InvokeExchange env ''GET'' u i t None resp w)")
    case False
    then show ?thesis by (intro exI[of _ 0]) simp
  next
    case True
    then obtain tp where eq: "InvokeExchange env ''GET'' u i t None resp w =
      ((None, Some tp), resp, snd (snd (InvokeExchange env ''GET'' u i t None resp w)))"
      by (rule transport_failedE)
    have "loop env org u i t resp (retry_step env u i t resp w) = Some y"
      using body by (subst (asm) eq) (simp add: retry_step_def Let_def)
    from IH[OF this] obtain k where
      k: "\<forall>j<k. transport_failed (InvokeExchange env ''GET'' u i t None resp
             ((retry_step env u i t resp ^^ j) (retry_step env u i t resp w)))"
         "\<not> transport_failed (InvokeExchange env ''GET'' u i t None resp
             ((retry_step env u i t resp ^^ k) (retry_step env u i t resp w)))"
      by blast
    show ?thesis
    proof (intro exI[of _ "Suc k"] conjI allI impI)
      fix j assume "j < Suc k"
      show "transport_failed (InvokeExchange env ''GET'' u i t None resp
              ((retry_step env u i t resp ^^ j) w))"
      proof (cases j)
        case 0
        then show ?thesis using True by simp
      next
        case (Suc j')
        with \<open>j < Suc k\<close> k(1) show ?thesis by (simp add: funpow_swap1)
      qed
    next
      show "\<not> transport_failed (InvokeExchange env ''GET'' u i t None resp
              ((retry_step env u i t resp ^^ Suc k) w))"
        using k(2) by (simp add: funpow_swap1)
    qed
  qed
qed

subsection \<open>The loop of GetEthereumClient\<close>

lemma GetEthereumClient_loop_failed:
  assumes "transport_failed (InvokeExchange env ''GET'' u i t None resp w)"
  shows "GetEthereumClient_loop env cn u i t resp w = GetEthereumClient_loop env cn u i t resp
      (retry_step env u i t resp w)"
proof -
  from assms obtain tp where eq: "InvokeExchange env ''GET'' u i t None resp w =
      ((None, Some tp), resp, snd (snd (InvokeExchange env ''GET'' u i t None resp w)))"
    by (rule transport_failedE)
  show ?thesis
    by (subst GetEthereumClient_loop.simps, subst eq) (simp add: retry_step_def Let_def)
qed

lemma GetEthereumClient_loop_error:
  assumes "InvokeExchange env ''GET'' u i t None resp w = ((Some e, tp), r', w')"
  shows "GetEthereumClient_loop env cn u i t resp w = Some (Returns ([], Some e), w')"
  by (subst GetEthereumClient_loop.simps) (simp add: assms)

lemma GetEthereumClient_loop_success:
  assumes "InvokeExchange env ''GET'' u i t None resp w = ((None, None), r', w')"
  shows "GetEthereumClient_loop env cn u i t resp w = Some (GetEthereumClient_found cn r', w')"
  by (subst GetEthereumClient_loop.simps) (simp add: assms)

lemma GetEthereumClient_loop_skip:
  "(\<And>j. j < k \<Longrightarrow>
      transport_failed (InvokeExchange env ''GET'' u i t None resp ((retry_step env u i t resp ^^
          j) w)))
   \<Longrightarrow> GetEthereumClient_loop env cn u i t resp w
       = GetEthereumClient_loop env cn u i t resp ((retry_step env u i t resp ^^ k) w)"
proof (induction k)
  case 0
  show ?case by simp
next
  case (Suc k)
  have "GetEthereumClient_loop env cn u i t resp w
       = GetEthereumClient_loop env cn u i t resp ((retry_step env u i t resp ^^ k) w)"
    using Suc.prems by (intro Suc.IH) simp
  also have "\<dots> = GetEthereumClient_loop env cn u i t resp
                     (retry_step env u i t resp ((retry_step env u i t resp ^^ k) w))"
    using Suc.prems[of k] by (intro GetEthereumClient_loop_failed) simp
  finally show ?case by simp
qed

lemma GetEthereumClient_loop_returns:
  assumes "GetEthereumClient_loop env cn u i t resp w = Some y"
  shows "\<exists>k. (\<forall>j<k. transport_failed
                 (InvokeExchange env ''GET'' u i t None resp ((retry_step env u i t resp ^^ j) w)))
            \<and> \<not> transport_failed
                 (InvokeExchange env ''GET'' u i t None resp ((retry_step env u i t resp ^^ k) w))"
proof (rule GetEthereumClient_loop.raw_induct[where P = "\<lambda>env cn u i t resp w y.
    \<exists>k. (\<forall>j<k. transport_failed
                 (InvokeExchange env ''GET'' u i t None resp ((retry_step env u i t resp ^^ j) w)))
            \<and> \<not> transport_failed
                 (InvokeExchange env ''GET'' u i t None resp ((retry_step env u i t resp ^^ k) w))",
    OF _ assms])
  fix loop :: "env \<Rightarrow> string \<Rightarrow> string \<Rightarrow> string \<Rightarrow>
      string \<Rightarrow> response option \<Rightarrow> world \<Rightarrow> ((string \<times>
          error option) go_result \<times> world) option" and env cn u i t resp w y
  assume IH: "\<And>env cn u i t resp w y. loop env cn u i t resp w = Some y \<Longrightarrow>
    \<exists>k. (\<forall>j<k. transport_failed
                 (InvokeExchange env ''GET'' u i t None resp ((retry_step env u i t resp ^^ j) w)))
            \<and> \<not> transport_failed
                 (InvokeExchange env ''GET'' u i t None resp ((retry_step env u i t resp ^^ k) w))"
  assume body: "(case InvokeExchange env ''GET'' u i t None resp w of
      ((None, None), resp', w') \<Rightarrow> Some (GetEthereumClient_found cn resp', w')
    | ((None, Some tpErra), resp', w') \<Rightarrow> loop env cn u i t resp' (w'\<lparr>slept :=
        slept w' + 10\<rparr>)
    | ((Some err, tpErr), resp', w') \<Rightarrow> Some (Returns ([], Some err), w')) = Some y"
  show "\<exists>k. (\<forall>j<k. transport_failed
                 (InvokeExchange env ''GET'' u i t None resp ((retry_step env u i t resp ^^ j) w)))
            \<and> \<not> transport_failed
                 (InvokeExchange env ''GET'' u i t None resp ((retry_step env u i t resp ^^ k) w))"
  proof (cases "transport_failed (InvokeExchange env ''GET'' u i t None resp w)")
    case False
    then show ?thesis by (intro exI[of _ 0]) simp
  next
    case True
    then obtain tp where eq: "InvokeExchange env ''GET'' u i t None resp w =
      ((None, Some tp), resp, snd (snd (InvokeExchange env ''GET'' u i t None resp w)))"
      by (rule transport_failedE)
    have "loop env cn u i t resp (retry_step env u i t resp w) = Some y"
      using body by (subst (asm) eq) (simp add: retry_step_def Let_def)
    from IH[OF this] obtain k where
      k: "\<forall>j<k. transport_failed (InvokeExchange env ''GET'' u i t None resp
             ((retry_step env u i t resp ^^ j) (retry_step env u i t resp w)))"
         "\<not> transport_failed (InvokeExchange env ''GET'' u i t None resp
             ((retry_step env u i t resp ^^ k) (retry_step env u i t resp w)))"
      by blast
    show ?thesis
    proof (intro exI[of _ "Suc k"] conjI allI impI)
      fix j assume "j < Suc k"
      show "transport_failed (InvokeExchange env ''GET'' u i t None resp
              ((retry_step env u i t resp ^^ j) w))"
      proof (cases j)
        case 0
        then show ?thesis using True by simp
      next
        case (Suc j')
        with \<open>j < Suc k\<close> k(1) show ?thesis by (simp add: funpow_swap1)
      qed
    next
      show "\<not> transport_failed (InvokeExchange env ''GET'' u i t None resp
              ((retry_step env u i t resp ^^ Suc k) w))"
        using k(2) by (simp add: funpow_swap1)
    qed
  qed
qed

subsection \<open>Calls on the example Exchange\<close>

lemma workloads_URL_nonempty: "workloads_URL exURL wOrg wURL sv wArch \<noteq> []"
  by (simp add: workloads_URL_def)

lemma microservices_URL_nonempty: "microservices_URL exURL mOrg mURL sv mArch \<noteq> []"
  by (simp add: microservices_URL_def)

lemma example_exchange_workloads:
  assumes "u \<noteq> []"
  shows "\<exists>w'. InvokeExchange (example_exchange ws ms) ''GET'' u i t None
                (Some (GetWorkloadsResponse x)) w
              = ((None, None), Some (GetWorkloadsResponse ws), w')"
  using assms
  by (simp add: InvokeExchange_def InvokeExchange_request_def InvokeExchange_response_def
        example_exchange_def ReadAll_Body_def Let_def)

lemma example_exchange_microservices:
  assumes "u \<noteq> []"
  shows "\<exists>w'. InvokeExchange (example_exchange ws ms) ''GET'' u i t None
                (Some (GetMicroservicesResponse x)) w
              = ((None, None), Some (GetMicroservicesResponse ms), w')"
  using assms
  by (simp add: InvokeExchange_def InvokeExchange_request_def InvokeExchange_response_def
        example_exchange_def ReadAll_Body_def Let_def)

lemma GetWorkload_example:
  assumes "getSearchVersion v = Inr sv"
  shows "\<exists>w'. GetWorkload (example_exchange ws ms) wURL wOrg v wArch exURL i t w
              = Some (GetWorkload_found v sv (Some (GetWorkloadsResponse ws)), w')"
proof -
  obtain w' where "InvokeExchange (example_exchange ws ms) ''GET''
      (workloads_URL exURL wOrg wURL sv wArch) i t None (Some (GetWorkloadsResponse [])) w
      = ((None, None), Some (GetWorkloadsResponse ws), w')"
    using example_exchange_workloads[OF workloads_URL_nonempty] by blast
  from GetWorkload_loop_success[OF this] show ?thesis
    by (simp add: GetWorkload_def assms)
qed

lemma GetMicroservice_example:
  assumes "getSearchVersion v = Inr sv"
  shows "\<exists>w'. GetMicroservice (example_exchange ws ms) mURL mOrg v mArch exURL i t w
              = Some (GetMicroservice_found v sv (Some (GetMicroservicesResponse ms)), w')"
proof -
  obtain w' where "InvokeExchange (example_exchange ws ms) ''GET''
      (microservices_URL exURL mOrg mURL sv mArch) i t None (Some (GetMicroservicesResponse [])) w
      = ((None, None), Some (GetMicroservicesResponse ms), w')"
    using example_exchange_microservices[OF microservices_URL_nonempty] by blast
  from GetMicroservice_loop_success[OF this] show ?thesis
    by (simp add: GetMicroservice_def assms)
qed

subsection \<open>WorkloadResolver and the workload it is given\<close>

lemma GetWorkload_range_request:
  assumes "wVersion = [] \<or> IsVersionExpression wVersion"
  shows "GetWorkload env wURL wOrg wVersion wArch exURL i t w =
    GetWorkload_loop env wVersion [] (workloads_URL exURL wOrg wURL [] wArch)
      i t (Some (GetWorkloadsResponse [])) w"
  using assms by (auto simp: GetWorkload_def getSearchVersion_def)

lemma GetMicroservice_range_request:
  assumes "mVersion = [] \<or> IsVersionExpression mVersion"
  shows "GetMicroservice env mURL mOrg mVersion mArch exURL i t w =
    GetMicroservice_loop env mVersion [] (microservices_URL exURL mOrg mURL [] mArch)
      i t (Some (GetMicroservicesResponse [])) w"
  using assms by (auto simp: GetMicroservice_def getSearchVersion_def)

text \<open>
  C9. Once \<^verbatim>\<open>GetWorkload\<close> has returned a workload definition to \<^verbatim>\<open>WorkloadResolver\<close>,
  a \<^verbatim>\<open>Workloads\<close> array whose length is not 1 makes \<^verbatim>\<open>WorkloadResolver\<close> return the
  error "expecting 1 element in the workloads array", whatever the Exchange holds, and
  \<^verbatim>\<open>WorkloadResolver\<close> returns a list of dependencies only when the length is 1.
\<close>

theorem WorkloadResolver_one_deployment:
  assumes "GetWorkload env wURL wOrg wVersion wArch exURL i t w
             = Some (Returns (Some workload, None), w1)"
  shows "(length (wd_Workloads workload) \<noteq> 1 \<longrightarrow>
            WorkloadResolver env wURL wOrg wVersion wArch exURL i t w
              = Some (Returns (None, Some (ExpectingOneElement workload
                                             (length (wd_Workloads workload)))), w1))
       \<and> (\<forall>l w2. WorkloadResolver env wURL wOrg wVersion wArch exURL i t w
                     = Some (Returns (Some l, None), w2)
                  \<longrightarrow> length (wd_Workloads workload) = 1)"
  using assms
  by (auto simp: WorkloadResolver_def split: option.splits go_result.splits prod.splits if_splits)

theorem WorkloadResolver_one_deployment_witness:
  "map_option fst (WorkloadResolver (example_exchange [(''w'', example_workload ''1.0.0'' [] 2)] [])
      ''U'' ''O'' ''1.0.0'' ''amd64'' ''http://x/'' ''n'' ''t'' world0)
   = Some (Returns (None, Some (ExpectingOneElement (example_workload ''1.0.0'' [] 2) 2)))"
proof -
  let ?wl = "example_workload ''1.0.0'' [] 2"
  have sv: "getSearchVersion ''1.0.0'' = Inr ''1.0.0''"
    by code_simp
  have found: "GetWorkload_found ''1.0.0'' ''1.0.0'' (Some (GetWorkloadsResponse [(''w'', ?wl)]))
                 = Returns (Some ?wl, None)"
    by (simp add: GetWorkload_found_def)
  obtain w' where g: "GetWorkload (example_exchange [(''w'', ?wl)] [])
      ''U'' ''O'' ''1.0.0'' ''amd64'' ''http://x/'' ''n'' ''t'' world0
      = Some (Returns (Some ?wl, None), w')"
    using GetWorkload_example[OF sv, of "[(''w'', ?wl)]" "[]"] found by metis
  have len: "length (wd_Workloads ?wl) = 2"
    by (simp add: example_workload_def)
  from WorkloadResolver_one_deployment[OF g] len show ?thesis
    by simp
qed

text \<open>
  C10. When \<^verbatim>\<open>WorkloadResolver\<close> is called with a version range (or with no version) and
  the Exchange, after any number of transport failures, answers with no workload
  definition at all, \<^verbatim>\<open>GetWorkload\<close> returns a nil definition and a nil error, and
  \<^verbatim>\<open>WorkloadResolver\<close> panics on \<^verbatim>\<open>workload.Workloads\<close> instead of returning an error.
\<close>

theorem WorkloadResolver_nil_workload:
  assumes range: "wVersion = [] \<or> IsVersionExpression wVersion"
    and failed: "\<And>j. j < k \<Longrightarrow> transport_failed
        (InvokeExchange env ''GET'' (workloads_URL exURL wOrg wURL [] wArch)
           i t None (Some (GetWorkloadsResponse []))
           ((retry_step env (workloads_URL exURL wOrg wURL [] wArch)
               i t (Some (GetWorkloadsResponse [])) ^^ j) w))"
    and empty: "InvokeExchange env ''GET'' (workloads_URL exURL wOrg wURL [] wArch)
           i t None (Some (GetWorkloadsResponse []))
           ((retry_step env (workloads_URL exURL wOrg wURL [] wArch)
               i t (Some (GetWorkloadsResponse [])) ^^ k) w)
         = ((None, None), Some (GetWorkloadsResponse []), w')"
  shows "GetWorkload env wURL wOrg wVersion wArch exURL i t w = Some (Returns (None, None), w')
       \<and> WorkloadResolver env wURL wOrg wVersion wArch exURL i t w = Some (Panics, w')"
proof -
  let ?u = "workloads_URL exURL wOrg wURL [] wArch"
  let ?r = "Some (GetWorkloadsResponse [])"
  have "GetWorkload env wURL wOrg wVersion wArch exURL i t w
      = GetWorkload_loop env wVersion [] ?u i t ?r w"
    using range by (rule GetWorkload_range_request)
  also have "\<dots> = GetWorkload_loop env wVersion [] ?u i t ?r ((retry_step env ?u i t ?r ^^ k)
      w)"
    using failed by (rule GetWorkload_loop_skip)
  also have "\<dots> = Some (GetWorkload_found wVersion [] ?r, w')"
    using empty by (rule GetWorkload_loop_success)
  also have "GetWorkload_found wVersion [] ?r = Returns (None, None)"
    by (simp add: GetWorkload_found_def)
  finally have "GetWorkload env wURL wOrg wVersion wArch exURL i t w
                  = Some (Returns (None, None), w')" .
  then show ?thesis
    by (simp add: WorkloadResolver_def)
qed

theorem WorkloadResolver_nil_workload_witness:
  "map_option fst (GetWorkload (flaky_exchange 1 [] []) ''U'' ''O'' ''[1.0.0,2.0.0)'' ''amd64''
      ''http://x/'' ''n'' ''t'' world0) = Some (Returns (None, None))
   \<and> map_option fst (WorkloadResolver (flaky_exchange 1 [] []) ''U'' ''O'' ''[1.0.0,2.0.0)''
       ''amd64''
      ''http://x/'' ''n'' ''t'' world0) = Some Panics"
proof -
  let ?env = "flaky_exchange 1 [] []"
  let ?u = "workloads_URL ''http://x/'' ''O'' ''U'' [] ''amd64''"
  let ?r = "Some (GetWorkloadsResponse [])"
  let ?w = "(retry_step ?env ?u ''n'' ''t'' ?r ^^ 1) world0"
  have range: "''[1.0.0,2.0.0)'' = [] \<or> IsVersionExpression ''[1.0.0,2.0.0)''"
    by code_simp
  have first: "transport_failed (InvokeExchange ?env ''GET'' ?u ''n'' ''t'' None ?r
                 ((retry_step ?env ?u ''n'' ''t'' ?r ^^ 0) world0))"
    by code_simp
  have failed: "\<And>j. j < 1 \<Longrightarrow> transport_failed (InvokeExchange ?env ''GET'' ?u
      ''n'' ''t'' None ?r
                 ((retry_step ?env ?u ''n'' ''t'' ?r ^^ j) world0))"
    using first by simp
  have "fst (InvokeExchange ?env ''GET'' ?u ''n'' ''t'' None ?r ?w) = (None, None)"
       "fst (snd (InvokeExchange ?env ''GET'' ?u ''n'' ''t'' None ?r ?w)) = ?r"
    by code_simp+
  then have empty: "InvokeExchange ?env ''GET'' ?u ''n'' ''t'' None ?r ?w
      = ((None, None), ?r, snd (snd (InvokeExchange ?env ''GET'' ?u ''n'' ''t'' None ?r ?w)))"
    by (metis prod.collapse)
  from WorkloadResolver_nil_workload[OF range failed empty] show ?thesis
    by simp
qed

subsection \<open>A specific version\<close>

lemma getSearchVersion_specific:
  assumes "IsVersionString v" "\<not> IsVersionExpression v"
  shows "getSearchVersion v = Inr v \<and> v \<noteq> []"
proof -
  have "parse_version [] = None"
    by (simp add: parse_version_def is_number_def)
  with assms(1) have "v \<noteq> []"
    by (auto simp: IsVersionString_def)
  with assms show ?thesis
    by (simp add: getSearchVersion_def)
qed

lemma InvokeExchange_requests:
  "\<exists>rqs. sent (snd (snd (InvokeExchange env m u i t ps resp w))) = sent w @ rqs
         \<and> (\<forall>rq\<in>set rqs. rq_Method rq = m \<and> rq_URL rq = u)"
proof (cases "\<exists>r rb req. resp = Some r \<and> m \<noteq> [] \<and> u \<noteq> []
              \<and> InvokeExchange_body env ps = Inr rb
              \<and> InvokeExchange_request env m u i t rb = Inr req")
  case False
  then have "sent (snd (snd (InvokeExchange env m u i t ps resp w))) = sent w"
    by (auto simp: InvokeExchange_def split: option.splits sum.splits)
  then show ?thesis
    by (intro exI[of _ "[]"]) simp
next
  case True
  then obtain r rb req where s: "resp = Some r" "m \<noteq> []" "u \<noteq> []"
      "InvokeExchange_body env ps = Inr rb" "InvokeExchange_request env m u i t rb = Inr req"
    by blast
  from s(5) have req: "rq_Method req = m \<and> rq_URL req = u"
    by (auto simp: InvokeExchange_request_def split: option.splits)
  have "sent (snd (snd (InvokeExchange env m u i t ps resp w))) = sent w @ [req]"
    using s by (simp add: InvokeExchange_def split: sum.splits prod.splits)
  with req show ?thesis
    by (intro exI[of _ "[req]"]) simp
qed

lemma retry_steps_requests:
  "\<exists>rqs. sent ((retry_step env u i t resp ^^ k) w) = sent w @ rqs
         \<and> (\<forall>rq\<in>set rqs. rq_Method rq = ''GET'' \<and> rq_URL rq = u)"
proof (induction k)
  case 0
  show ?case
    by simp
next
  case (Suc k)
  then obtain rqs where rqs: "sent ((retry_step env u i t resp ^^ k) w) = sent w @ rqs"
      "\<forall>rq\<in>set rqs. rq_Method rq = ''GET'' \<and> rq_URL rq = u"
    by blast
  from InvokeExchange_requests[of env "''GET''" u i t None resp "(retry_step env u i t resp ^^ k) w"]
  obtain rqs' where rqs': "sent (snd (snd (InvokeExchange env ''GET'' u i t None resp
        ((retry_step env u i t resp ^^ k) w)))) = sent ((retry_step env u i t resp ^^ k) w) @ rqs'"
      "\<forall>rq\<in>set rqs'. rq_Method rq = ''GET'' \<and> rq_URL rq = u"
    by blast
  have "sent ((retry_step env u i t resp ^^ Suc k) w) = sent w @ (rqs @ rqs')"
    using rqs(1) rqs'(1) by (simp add: retry_step_def Let_def)
  moreover have "\<forall>rq\<in>set (rqs @ rqs'). rq_Method rq = ''GET'' \<and> rq_URL rq = u"
    using rqs(2) rqs'(2) by auto
  ultimately show ?case
    by blast
qed

lemma GetWorkload_loop_requests:
  assumes "GetWorkload_loop env v sv u i t resp w = Some (res, w1)"
  shows "\<exists>rqs. sent w1 = sent w @ rqs
            \<and> (\<forall>rq\<in>set rqs. rq_Method rq = ''GET'' \<and> rq_URL rq = u)"
proof -
  let ?step = "retry_step env u i t resp"
  from GetWorkload_loop_returns[OF assms] obtain k where
    k: "\<forall>j<k. transport_failed (InvokeExchange env ''GET'' u i t None resp ((?step ^^ j) w))"
       "\<not> transport_failed (InvokeExchange env ''GET'' u i t None resp ((?step ^^ k) w))"
    by blast
  have eq: "GetWorkload_loop env v sv u i t resp w = GetWorkload_loop env v sv u i t resp ((?step ^^ k) w)"
    using k(1) by (intro GetWorkload_loop_skip) simp
  have "w1 = snd (snd (InvokeExchange env ''GET'' u i t None resp ((?step ^^ k) w)))"
    using not_transport_failed_cases[OF k(2)]
  proof (elim disjE exE)
    fix e r' w'
    assume a: "InvokeExchange env ''GET'' u i t None resp ((?step ^^ k) w) = ((Some e, None), r', w')"
    from GetWorkload_loop_error[OF a] eq assms show ?thesis
      by (simp add: a)
  next
    fix r' w'
    assume a: "InvokeExchange env ''GET'' u i t None resp ((?step ^^ k) w) = ((None, None), r', w')"
    from GetWorkload_loop_success[OF a] eq assms show ?thesis
      by (simp add: a)
  qed
  with InvokeExchange_requests[of env "''GET''" u i t None resp "(?step ^^ k) w"]
    retry_steps_requests[of k env u i t resp w]
  show ?thesis
    by auto
qed

lemma GetWorkload_loop_definition:
  assumes "GetWorkload_loop env v sv u i t resp w = Some (Returns (Some d, None), w1)"
    and "sv \<noteq> []"
  shows "\<exists>k key.
           (\<forall>j<k. transport_failed
              (InvokeExchange env ''GET'' u i t None resp ((retry_step env u i t resp ^^ j) w)))
         \<and> InvokeExchange env ''GET'' u i t None resp ((retry_step env u i t resp ^^ k) w)
             = ((None, None), Some (GetWorkloadsResponse [(key, d)]), w1)"
proof -
  let ?step = "retry_step env u i t resp"
  from GetWorkload_loop_returns[OF assms(1)] obtain k where
    k: "\<forall>j<k. transport_failed (InvokeExchange env ''GET'' u i t None resp ((?step ^^ j) w))"
       "\<not> transport_failed (InvokeExchange env ''GET'' u i t None resp ((?step ^^ k) w))"
    by blast
  have eq: "GetWorkload_loop env v sv u i t resp w = GetWorkload_loop env v sv u i t resp ((?step ^^ k) w)"
    using k(1) by (intro GetWorkload_loop_skip) simp
  from not_transport_failed_cases[OF k(2)]
  have "\<exists>key. InvokeExchange env ''GET'' u i t None resp ((?step ^^ k) w)
             = ((None, None), Some (GetWorkloadsResponse [(key, d)]), w1)"
  proof (elim disjE exE)
    fix e r' w'
    assume a: "InvokeExchange env ''GET'' u i t None resp ((?step ^^ k) w) = ((Some e, None), r', w')"
    from GetWorkload_loop_error[OF a] eq assms(1) show ?thesis
      by simp
  next
    fix r' w'
    assume a: "InvokeExchange env ''GET'' u i t None resp ((?step ^^ k) w) = ((None, None), r', w')"
    from GetWorkload_loop_success[OF a] eq assms(1)
    have f: "GetWorkload_found v sv r' = Returns (Some d, None)" and w: "w' = w1"
      by simp_all
    from f assms(2) obtain ms where r': "r' = Some (GetWorkloadsResponse ms)"
      and ms: "length ms = 1" "snd (hd ms) = d"
      by (auto simp: GetWorkload_found_def split: option.splits response.splits if_splits)
    from ms have "ms = [(fst (hd ms), d)]"
      by (cases ms) auto
    with a r' w show ?thesis
      by auto
  qed
  with k(1) show ?thesis
    by blast
qed

lemma GetMicroservice_loop_requests:
  assumes "GetMicroservice_loop env v sv u i t resp w = Some (res, w1)"
  shows "\<exists>rqs. sent w1 = sent w @ rqs
            \<and> (\<forall>rq\<in>set rqs. rq_Method rq = ''GET'' \<and> rq_URL rq = u)"
proof -
  let ?step = "retry_step env u i t resp"
  from GetMicroservice_loop_returns[OF assms] obtain k where
    k: "\<forall>j<k. transport_failed (InvokeExchange env ''GET'' u i t None resp ((?step ^^ j) w))"
       "\<not> transport_failed (InvokeExchange env ''GET'' u i t None resp ((?step ^^ k) w))"
    by blast
  have eq: "GetMicroservice_loop env v sv u i t resp w = GetMicroservice_loop env v sv u i t resp ((?step ^^ k) w)"
    using k(1) by (intro GetMicroservice_loop_skip) simp
  have "w1 = snd (snd (InvokeExchange env ''GET'' u i t None resp ((?step ^^ k) w)))"
    using not_transport_failed_cases[OF k(2)]
  proof (elim disjE exE)
    fix e r' w'
    assume a: "InvokeExchange env ''GET'' u i t None resp ((?step ^^ k) w) = ((Some e, None), r', w')"
    from GetMicroservice_loop_error[OF a] eq assms show ?thesis
      by (simp add: a)
  next
    fix r' w'
    assume a: "InvokeExchange env ''GET'' u i t None resp ((?step ^^ k) w) = ((None, None), r', w')"
    from GetMicroservice_loop_success[OF a] eq assms show ?thesis
      by (simp add: a)
  qed
  with InvokeExchange_requests[of env "''GET''" u i t None resp "(?step ^^ k) w"]
    retry_steps_requests[of k env u i t resp w]
  show ?thesis
    by auto
qed

lemma GetMicroservice_loop_definition:
  assumes "GetMicroservice_loop env v sv u i t resp w = Some (Returns (Some d, None), w1)"
    and "sv \<noteq> []"
  shows "\<exists>k key.
           (\<forall>j<k. transport_failed
              (InvokeExchange env ''GET'' u i t None resp ((retry_step env u i t resp ^^ j) w)))
         \<and> InvokeExchange env ''GET'' u i t None resp ((retry_step env u i t resp ^^ k) w)
             = ((None, None), Some (GetMicroservicesResponse [(key, d)]), w1)"
proof -
  let ?step = "retry_step env u i t resp"
  from GetMicroservice_loop_returns[OF assms(1)] obtain k where
    k: "\<forall>j<k. transport_failed (InvokeExchange env ''GET'' u i t None resp ((?step ^^ j) w))"
       "\<not> transport_failed (InvokeExchange env ''GET'' u i t None resp ((?step ^^ k) w))"
    by blast
  have eq: "GetMicroservice_loop env v sv u i t resp w = GetMicroservice_loop env v sv u i t resp ((?step ^^ k) w)"
    using k(1) by (intro GetMicroservice_loop_skip) simp
  from not_transport_failed_cases[OF k(2)]
  have "\<exists>key. InvokeExchange env ''GET'' u i t None resp ((?step ^^ k) w)
             = ((None, None), Some (GetMicroservicesResponse [(key, d)]), w1)"
  proof (elim disjE exE)
    fix e r' w'
    assume a: "InvokeExchange env ''GET'' u i t None resp ((?step ^^ k) w) = ((Some e, None), r', w')"
    from GetMicroservice_loop_error[OF a] eq assms(1) show ?thesis
      by simp
  next
    fix r' w'
    assume a: "InvokeExchange env ''GET'' u i t None resp ((?step ^^ k) w) = ((None, None), r', w')"
    from GetMicroservice_loop_success[OF a] eq assms(1)
    have f: "GetMicroservice_found v sv r' = Returns (Some d, None)" and w: "w' = w1"
      by simp_all
    from f assms(2) obtain ms where r': "r' = Some (GetMicroservicesResponse ms)"
      and ms: "length ms = 1" "snd (hd ms) = d"
      by (auto simp: GetMicroservice_found_def split: option.splits response.splits if_splits)
    from ms have "ms = [(fst (hd ms), d)]"
      by (cases ms) auto
    with a r' w show ?thesis
      by auto
  qed
  with k(1) show ?thesis
    by blast
qed

text \<open>
  C3. \<^verbatim>\<open>GetWorkload\<close> and \<^verbatim>\<open>GetMicroservice\<close>, called with a specific version \<open>v\<close> (a
  version string that is not a range), ask the Exchange for that version: every request
  of the call is a \<^verbatim>\<open>GET\<close> of the search URL that carries \<^verbatim>\<open>&version=v\<close>. When the
  Exchange answers that search, after any number of transport failures, with a response
  that decodes to the records \<open>rs\<close>, the call returns the definition if there is exactly
  one record, and the error "expecting 1 result ... got N", with N the number of
  records, if there are none or more than one. And a call returns a definition only
  when the Exchange has answered with exactly one record, which is that definition.
\<close>

theorem specific_version_expects_one_result:
  assumes "IsVersionString v" "\<not> IsVersionExpression v"
  shows "(let U = exURL @ ''orgs/'' @ org @ ''/workloads?workloadUrl='' @ url @ ''&version='' @ v
                 @ ''&arch='' @ arch;
            R = Some (GetWorkloadsResponse [])
        in (\<forall>k rs w1.
              (\<forall>j<k. transport_failed
                 (InvokeExchange env ''GET'' U i t None R ((retry_step env U i t R ^^ j) w)))
              \<and> InvokeExchange env ''GET'' U i t None R ((retry_step env U i t R ^^ k) w)
                  = ((None, None), Some (GetWorkloadsResponse rs), w1)
              \<longrightarrow> GetWorkload env url org v arch exURL i t w =
                    Some (if length rs = 1 then Returns (Some (snd (hd rs)), None)
                          else Returns (None, Some (ExpectingOneWorkload (length rs))), w1))
         \<and> (\<forall>d w1.
              GetWorkload env url org v arch exURL i t w = Some (Returns (Some d, None), w1)
              \<longrightarrow> (\<exists>k key.
                    (\<forall>j<k. transport_failed
                       (InvokeExchange env ''GET'' U i t None R ((retry_step env U i t R ^^ j) w)))
                    \<and> InvokeExchange env ''GET'' U i t None R ((retry_step env U i t R ^^ k) w)
                        = ((None, None), Some (GetWorkloadsResponse [(key, d)]), w1)))
         \<and> (\<forall>res w1.
              GetWorkload env url org v arch exURL i t w = Some (res, w1)
              \<longrightarrow> (\<exists>rqs. sent w1 = sent w @ rqs
                      \<and> (\<forall>rq\<in>set rqs. rq_Method rq = ''GET'' \<and> rq_URL rq = U))))
       \<and> (let U = exURL @ ''orgs/'' @ org @ ''/microservices?specRef='' @ url @ ''&version='' @ v
                 @ ''&arch='' @ arch;
            R = Some (GetMicroservicesResponse [])
        in (\<forall>k rs w1.
              (\<forall>j<k. transport_failed
                 (InvokeExchange env ''GET'' U i t None R ((retry_step env U i t R ^^ j) w)))
              \<and> InvokeExchange env ''GET'' U i t None R ((retry_step env U i t R ^^ k) w)
                  = ((None, None), Some (GetMicroservicesResponse rs), w1)
              \<longrightarrow> GetMicroservice env url org v arch exURL i t w =
                    Some (if length rs = 1 then Returns (Some (snd (hd rs)), None)
                          else Returns (None, Some (ExpectingOneMicroservice (length rs))), w1))
         \<and> (\<forall>d w1.
              GetMicroservice env url org v arch exURL i t w = Some (Returns (Some d, None), w1)
              \<longrightarrow> (\<exists>k key.
                    (\<forall>j<k. transport_failed
                       (InvokeExchange env ''GET'' U i t None R ((retry_step env U i t R ^^ j) w)))
                    \<and> InvokeExchange env ''GET'' U i t None R ((retry_step env U i t R ^^ k) w)
                        = ((None, None), Some (GetMicroservicesResponse [(key, d)]), w1)))
         \<and> (\<forall>res w1.
              GetMicroservice env url org v arch exURL i t w = Some (res, w1)
              \<longrightarrow> (\<exists>rqs. sent w1 = sent w @ rqs
                      \<and> (\<forall>rq\<in>set rqs. rq_Method rq = ''GET'' \<and> rq_URL rq = U))))"
proof -
  from assms have sv: "getSearchVersion v = Inr v" and ne: "v \<noteq> []"
    using getSearchVersion_specific by blast+
  have W: "(let U = exURL @ ''orgs/'' @ org @ ''/workloads?workloadUrl='' @ url @ ''&version='' @ v
                 @ ''&arch='' @ arch;
            R = Some (GetWorkloadsResponse [])
        in (\<forall>k rs w1.
              (\<forall>j<k. transport_failed
                 (InvokeExchange env ''GET'' U i t None R ((retry_step env U i t R ^^ j) w)))
              \<and> InvokeExchange env ''GET'' U i t None R ((retry_step env U i t R ^^ k) w)
                  = ((None, None), Some (GetWorkloadsResponse rs), w1)
              \<longrightarrow> GetWorkload env url org v arch exURL i t w =
                    Some (if length rs = 1 then Returns (Some (snd (hd rs)), None)
                          else Returns (None, Some (ExpectingOneWorkload (length rs))), w1))
         \<and> (\<forall>d w1.
              GetWorkload env url org v arch exURL i t w = Some (Returns (Some d, None), w1)
              \<longrightarrow> (\<exists>k key.
                    (\<forall>j<k. transport_failed
                       (InvokeExchange env ''GET'' U i t None R ((retry_step env U i t R ^^ j) w)))
                    \<and> InvokeExchange env ''GET'' U i t None R ((retry_step env U i t R ^^ k) w)
                        = ((None, None), Some (GetWorkloadsResponse [(key, d)]), w1)))
         \<and> (\<forall>res w1.
              GetWorkload env url org v arch exURL i t w = Some (res, w1)
              \<longrightarrow> (\<exists>rqs. sent w1 = sent w @ rqs
                      \<and> (\<forall>rq\<in>set rqs. rq_Method rq = ''GET'' \<and> rq_URL rq = U))))"
  proof -
    define U where "U = exURL @ ''orgs/'' @ org @ ''/workloads?workloadUrl='' @ url @ ''&version='' @ v
                 @ ''&arch='' @ arch"
    define R where "R = Some (GetWorkloadsResponse [])"
    have call: "GetWorkload env url org v arch exURL i t w = GetWorkload_loop env v v U i t R w"
      by (simp add: GetWorkload_def sv workloads_URL_def ne U_def R_def)
    have a: "GetWorkload env url org v arch exURL i t w =
                Some (if length rs = 1 then Returns (Some (snd (hd rs)), None)
                      else Returns (None, Some (ExpectingOneWorkload (length rs))), w1)"
      if failed: "\<forall>j<k. transport_failed
                 (InvokeExchange env ''GET'' U i t None R ((retry_step env U i t R ^^ j) w))"
        and answer: "InvokeExchange env ''GET'' U i t None R ((retry_step env U i t R ^^ k) w)
                  = ((None, None), Some (GetWorkloadsResponse rs), w1)"
      for k rs w1
    proof -
      have "GetWorkload_loop env v v U i t R w
              = GetWorkload_loop env v v U i t R ((retry_step env U i t R ^^ k) w)"
        using failed by (intro GetWorkload_loop_skip) simp
      also have "\<dots> = Some (GetWorkload_found v v (Some (GetWorkloadsResponse rs)), w1)"
        using answer by (rule GetWorkload_loop_success)
      finally show ?thesis
        using ne by (simp add: call GetWorkload_found_def)
    qed
    have b: "\<exists>k key.
                (\<forall>j<k. transport_failed
                   (InvokeExchange env ''GET'' U i t None R ((retry_step env U i t R ^^ j) w)))
                \<and> InvokeExchange env ''GET'' U i t None R ((retry_step env U i t R ^^ k) w)
                    = ((None, None), Some (GetWorkloadsResponse [(key, d)]), w1)"
      if "GetWorkload env url org v arch exURL i t w = Some (Returns (Some d, None), w1)" for d w1
      using that ne unfolding call by (rule GetWorkload_loop_definition)
    have c: "\<exists>rqs. sent w1 = sent w @ rqs
                \<and> (\<forall>rq\<in>set rqs. rq_Method rq = ''GET'' \<and> rq_URL rq = U)"
      if "GetWorkload env url org v arch exURL i t w = Some (res, w1)" for res w1
      using that unfolding call by (rule GetWorkload_loop_requests)
    from a b c show ?thesis
      unfolding Let_def U_def[symmetric] R_def[symmetric] by blast
  qed
  have M: "(let U = exURL @ ''orgs/'' @ org @ ''/microservices?specRef='' @ url @ ''&version='' @ v
                 @ ''&arch='' @ arch;
            R = Some (GetMicroservicesResponse [])
        in (\<forall>k rs w1.
              (\<forall>j<k. transport_failed
                 (InvokeExchange env ''GET'' U i t None R ((retry_step env U i t R ^^ j) w)))
              \<and> InvokeExchange env ''GET'' U i t None R ((retry_step env U i t R ^^ k) w)
                  = ((None, None), Some (GetMicroservicesResponse rs), w1)
              \<longrightarrow> GetMicroservice env url org v arch exURL i t w =
                    Some (if length rs = 1 then Returns (Some (snd (hd rs)), None)
                          else Returns (None, Some (ExpectingOneMicroservice (length rs))), w1))
         \<and> (\<forall>d w1.
              GetMicroservice env url org v arch exURL i t w = Some (Returns (Some d, None), w1)
              \<longrightarrow> (\<exists>k key.
                    (\<forall>j<k. transport_failed
                       (InvokeExchange env ''GET'' U i t None R ((retry_step env U i t R ^^ j) w)))
                    \<and> InvokeExchange env ''GET'' U i t None R ((retry_step env U i t R ^^ k) w)
                        = ((None, None), Some (GetMicroservicesResponse [(key, d)]), w1)))
         \<and> (\<forall>res w1.
              GetMicroservice env url org v arch exURL i t w = Some (res, w1)
              \<longrightarrow> (\<exists>rqs. sent w1 = sent w @ rqs
                      \<and> (\<forall>rq\<in>set rqs. rq_Method rq = ''GET'' \<and> rq_URL rq = U))))"
  proof -
    define U where "U = exURL @ ''orgs/'' @ org @ ''/microservices?specRef='' @ url @ ''&version='' @ v
                 @ ''&arch='' @ arch"
    define R where "R = Some (GetMicroservicesResponse [])"
    have call: "GetMicroservice env url org v arch exURL i t w = GetMicroservice_loop env v v U i t R w"
      by (simp add: GetMicroservice_def sv microservices_URL_def ne U_def R_def)
    have a: "GetMicroservice env url org v arch exURL i t w =
                Some (if length rs = 1 then Returns (Some (snd (hd rs)), None)
                      else Returns (None, Some (ExpectingOneMicroservice (length rs))), w1)"
      if failed: "\<forall>j<k. transport_failed
                 (InvokeExchange env ''GET'' U i t None R ((retry_step env U i t R ^^ j) w))"
        and answer: "InvokeExchange env ''GET'' U i t None R ((retry_step env U i t R ^^ k) w)
                  = ((None, None), Some (GetMicroservicesResponse rs), w1)"
      for k rs w1
    proof -
      have "GetMicroservice_loop env v v U i t R w
              = GetMicroservice_loop env v v U i t R ((retry_step env U i t R ^^ k) w)"
        using failed by (intro GetMicroservice_loop_skip) simp
      also have "\<dots> = Some (GetMicroservice_found v v (Some (GetMicroservicesResponse rs)), w1)"
        using answer by (rule GetMicroservice_loop_success)
      finally show ?thesis
        using ne by (simp add: call GetMicroservice_found_def)
    qed
    have b: "\<exists>k key.
                (\<forall>j<k. transport_failed
                   (InvokeExchange env ''GET'' U i t None R ((retry_step env U i t R ^^ j) w)))
                \<and> InvokeExchange env ''GET'' U i t None R ((retry_step env U i t R ^^ k) w)
                    = ((None, None), Some (GetMicroservicesResponse [(key, d)]), w1)"
      if "GetMicroservice env url org v arch exURL i t w = Some (Returns (Some d, None), w1)" for d w1
      using that ne unfolding call by (rule GetMicroservice_loop_definition)
    have c: "\<exists>rqs. sent w1 = sent w @ rqs
                \<and> (\<forall>rq\<in>set rqs. rq_Method rq = ''GET'' \<and> rq_URL rq = U)"
      if "GetMicroservice env url org v arch exURL i t w = Some (res, w1)" for res w1
      using that unfolding call by (rule GetMicroservice_loop_requests)
    from a b c show ?thesis
      unfolding Let_def U_def[symmetric] R_def[symmetric] by blast
  qed
  from W M show ?thesis
    by (rule conjI)
qed

theorem specific_version_expects_one_result_witness:
  "map_option fst (GetWorkload (flaky_exchange 1 [(''w'', example_workload ''1.2.0'' [] 1)] [])
      ''U'' ''O'' ''1.2.0'' ''amd64'' ''http://x/'' ''n'' ''t'' world0)
     = Some (Returns (Some (example_workload ''1.2.0'' [] 1), None))
   \<and> map_option (\<lambda>y. map rq_URL (sent (snd y)))
       (GetWorkload (flaky_exchange 1 [(''w'', example_workload ''1.2.0'' [] 1)] [])
          ''U'' ''O'' ''1.2.0'' ''amd64'' ''http://x/'' ''n'' ''t'' world0)
     = Some [''http://x/orgs/O/workloads?workloadUrl=U&version=1.2.0&arch=amd64'',
             ''http://x/orgs/O/workloads?workloadUrl=U&version=1.2.0&arch=amd64'']
   \<and> map_option fst (GetMicroservice (flaky_exchange 1 [(''w'', example_workload ''1.2.0'' []
       1)] [])
      ''U'' ''O'' ''1.2.0'' ''amd64'' ''http://x/'' ''n'' ''t'' world0)
     = Some (Returns (None, Some (ExpectingOneMicroservice 0)))"
proof -
  let ?ws = "[(''w'', example_workload ''1.2.0'' [] 1)]"
  let ?env = "flaky_exchange 1 ?ws []"
  let ?uw = "''http://x/'' @ ''orgs/'' @ ''O'' @ ''/workloads?workloadUrl='' @ ''U''
               @ ''&version='' @ ''1.2.0'' @ ''&arch='' @ ''amd64''"
  let ?rw = "Some (GetWorkloadsResponse [])"
  let ?um = "''http://x/'' @ ''orgs/'' @ ''O'' @ ''/microservices?specRef='' @ ''U''
               @ ''&version='' @ ''1.2.0'' @ ''&arch='' @ ''amd64''"
  let ?rm = "Some (GetMicroservicesResponse [])"
  let ?w1 = "(retry_step ?env ?uw ''n'' ''t'' ?rw ^^ 1) world0"
  let ?w2 = "(retry_step ?env ?um ''n'' ''t'' ?rm ^^ 1) world0"
  have v1: "IsVersionString ''1.2.0''" and v2: "\<not> IsVersionExpression ''1.2.0''"
    by code_simp+
  note T = specific_version_expects_one_result[OF v1 v2, where exURL = "''http://x/''"
      and org = "''O''" and url = "''U''" and arch = "''amd64''" and env = ?env
      and i = "''n''" and t = "''t''" and w = world0, unfolded Let_def]
  have "transport_failed (InvokeExchange ?env ''GET'' ?uw ''n'' ''t'' None ?rw
          ((retry_step ?env ?uw ''n'' ''t'' ?rw ^^ 0) world0))"
    by code_simp
  then have wfailed: "\<forall>j<1. transport_failed
          (InvokeExchange ?env ''GET'' ?uw ''n'' ''t'' None ?rw
             ((retry_step ?env ?uw ''n'' ''t'' ?rw ^^ j) world0))"
    by simp
  have "fst (InvokeExchange ?env ''GET'' ?uw ''n'' ''t'' None ?rw ?w1) = (None, None)"
       "fst (snd (InvokeExchange ?env ''GET'' ?uw ''n'' ''t'' None ?rw ?w1))
          = Some (GetWorkloadsResponse ?ws)"
    by code_simp+
  then have wanswer: "InvokeExchange ?env ''GET'' ?uw ''n'' ''t'' None ?rw ?w1
      = ((None, None), Some (GetWorkloadsResponse ?ws),
         snd (snd (InvokeExchange ?env ''GET'' ?uw ''n'' ''t'' None ?rw ?w1)))"
    by (metis prod.collapse)
  have wsent: "map rq_URL (sent (snd (snd (InvokeExchange ?env ''GET'' ?uw ''n'' ''t'' None ?rw
        ?w1))))
      = [''http://x/orgs/O/workloads?workloadUrl=U&version=1.2.0&arch=amd64'',
         ''http://x/orgs/O/workloads?workloadUrl=U&version=1.2.0&arch=amd64'']"
    by code_simp
  have "transport_failed (InvokeExchange ?env ''GET'' ?um ''n'' ''t'' None ?rm
          ((retry_step ?env ?um ''n'' ''t'' ?rm ^^ 0) world0))"
    by code_simp
  then have mfailed: "\<forall>j<1. transport_failed
          (InvokeExchange ?env ''GET'' ?um ''n'' ''t'' None ?rm
             ((retry_step ?env ?um ''n'' ''t'' ?rm ^^ j) world0))"
    by simp
  have "fst (InvokeExchange ?env ''GET'' ?um ''n'' ''t'' None ?rm ?w2) = (None, None)"
       "fst (snd (InvokeExchange ?env ''GET'' ?um ''n'' ''t'' None ?rm ?w2))
          = Some (GetMicroservicesResponse [])"
    by code_simp+
  then have manswer: "InvokeExchange ?env ''GET'' ?um ''n'' ''t'' None ?rm ?w2
      = ((None, None), Some (GetMicroservicesResponse []),
         snd (snd (InvokeExchange ?env ''GET'' ?um ''n'' ''t'' None ?rm ?w2)))"
    by (metis prod.collapse)
  note W = T[THEN conjunct1, THEN conjunct1, rule_format, OF conjI[OF wfailed wanswer]]
  note M = T[THEN conjunct2, THEN conjunct1, rule_format, OF conjI[OF mfailed manswer]]
  have "map_option fst (GetWorkload ?env ''U'' ''O'' ''1.2.0'' ''amd64'' ''http://x/'' ''n'' ''t''
          world0) = Some (Returns (Some (example_workload ''1.2.0'' [] 1), None))"
    by (subst W) simp
  moreover have "map_option (\<lambda>y. map rq_URL (sent (snd y)))
       (GetWorkload ?env ''U'' ''O'' ''1.2.0'' ''amd64'' ''http://x/'' ''n'' ''t'' world0)
     = Some [''http://x/orgs/O/workloads?workloadUrl=U&version=1.2.0&arch=amd64'',
             ''http://x/orgs/O/workloads?workloadUrl=U&version=1.2.0&arch=amd64'']"
    by (subst W) (simp only: option.map snd_conv wsent)
  moreover have "map_option fst (GetMicroservice ?env ''U'' ''O'' ''1.2.0'' ''amd64'' ''http://x/''
          ''n'' ''t'' world0) = Some (Returns (None, Some (ExpectingOneMicroservice 0)))"
    by (subst M) simp
  ultimately show ?thesis
    by (intro conjI)
qed

subsection \<open>The highest version in a range\<close>

lemma GetWorkload_example_result:
  assumes "getSearchVersion v = Inr sv"
    and "GetWorkload_found v sv (Some (GetWorkloadsResponse ws)) = r"
  shows "map_option fst (GetWorkload (example_exchange ws ms) wURL wOrg v wArch exURL i t w)
           = Some r"
proof -
  obtain w' where "GetWorkload (example_exchange ws ms) wURL wOrg v wArch exURL i t w
              = Some (GetWorkload_found v sv (Some (GetWorkloadsResponse ws)), w')"
    using GetWorkload_example[OF assms(1)] by blast
  then show ?thesis
    by (simp add: assms(2))
qed

lemma GetMicroservice_example_result:
  assumes "getSearchVersion v = Inr sv"
    and "GetMicroservice_found v sv (Some (GetMicroservicesResponse ms)) = r"
  shows "map_option fst (GetMicroservice (example_exchange ws ms) mURL mOrg v mArch exURL i t w)
           = Some r"
proof -
  obtain w' where "GetMicroservice (example_exchange ws ms) mURL mOrg v mArch exURL i t w
              = Some (GetMicroservice_found v sv (Some (GetMicroservicesResponse ms)), w')"
    using GetMicroservice_example[OF assms(1)] by blast
  then show ?thesis
    by (simp add: assms(2))
qed

lemma range_1_2: "getSearchVersion ''[1.0.0,2.0.0)'' = Inr []"
  by code_simp

text \<open>
  C1. The workloads (microservices) 1.9.0 and 1.10.0 both lie in the range
  \<^verbatim>\<open>[1.0.0,2.0.0)\<close> and 1.10.0 is the greater in the segment-wise numeric order, yet
  \<^verbatim>\<open>GetWorkload\<close> (\<^verbatim>\<open>GetMicroservice\<close>) returns 1.9.0, in whichever order the map is
  visited: the loop compares the version strings with \<^verbatim>\<open>strings.Compare\<close>.
\<close>

theorem highest_in_range_compares_strings:
  "map_option fst (GetWorkload
      (example_exchange [(''a'', example_workload ''1.9.0'' [] 1),
                         (''b'', example_workload ''1.10.0'' [] 1)] [])
      ''U'' ''O'' ''[1.0.0,2.0.0)'' ''amd64'' ''http://x/'' ''n'' ''t'' world0)
     = Some (Returns (Some (example_workload ''1.9.0'' [] 1), None))
   \<and> map_option fst (GetWorkload
      (example_exchange [(''b'', example_workload ''1.10.0'' [] 1),
                         (''a'', example_workload ''1.9.0'' [] 1)] [])
      ''U'' ''O'' ''[1.0.0,2.0.0)'' ''amd64'' ''http://x/'' ''n'' ''t'' world0)
     = Some (Returns (Some (example_workload ''1.9.0'' [] 1), None))
   \<and> map_option fst (GetMicroservice
      (example_exchange [] [(''a'', example_microservice ''1.9.0''),
                            (''b'', example_microservice ''1.10.0'')])
      ''U'' ''O'' ''[1.0.0,2.0.0)'' ''amd64'' ''http://x/'' ''n'' ''t'' world0)
     = Some (Returns (Some (example_microservice ''1.9.0''), None))
   \<and> map_option (\<lambda>r. (Is_within_range r ''1.9.0'', Is_within_range r ''1.10.0''))
        (search_range ''[1.0.0,2.0.0)'') = Some (Inr True, Inr True)
   \<and> parse_version ''1.9.0'' = Some [1, 9, 0]
   \<and> parse_version ''1.10.0'' = Some [1, 10, 0]
   \<and> cmp [1, 9, 0] [1, 10, 0] = - 1"
proof -
  let ?a = "example_workload ''1.9.0'' [] 1" and ?b = "example_workload ''1.10.0'' [] 1"
  let ?ma = "example_microservice ''1.9.0''" and ?mb = "example_microservice ''1.10.0''"
  have f1: "GetWorkload_found ''[1.0.0,2.0.0)'' [] (Some (GetWorkloadsResponse [(''a'', ?a),
      (''b'', ?b)]))
              = Returns (Some ?a, None)"
    by code_simp
  have f2: "GetWorkload_found ''[1.0.0,2.0.0)'' [] (Some (GetWorkloadsResponse [(''b'', ?b),
      (''a'', ?a)]))
              = Returns (Some ?a, None)"
    by code_simp
  have f3: "GetMicroservice_found ''[1.0.0,2.0.0)'' []
              (Some (GetMicroservicesResponse [(''a'', ?ma), (''b'', ?mb)]))
              = Returns (Some ?ma, None)"
    by code_simp
  have g1: "map_option fst (GetWorkload (example_exchange [(''a'', ?a), (''b'', ?b)] [])
      ''U'' ''O'' ''[1.0.0,2.0.0)'' ''amd64'' ''http://x/'' ''n'' ''t'' world0)
     = Some (Returns (Some ?a, None))"
    by (rule GetWorkload_example_result[OF range_1_2 f1])
  have g2: "map_option fst (GetWorkload (example_exchange [(''b'', ?b), (''a'', ?a)] [])
      ''U'' ''O'' ''[1.0.0,2.0.0)'' ''amd64'' ''http://x/'' ''n'' ''t'' world0)
     = Some (Returns (Some ?a, None))"
    by (rule GetWorkload_example_result[OF range_1_2 f2])
  have g3: "map_option fst (GetMicroservice (example_exchange [] [(''a'', ?ma), (''b'', ?mb)])
      ''U'' ''O'' ''[1.0.0,2.0.0)'' ''amd64'' ''http://x/'' ''n'' ''t'' world0)
     = Some (Returns (Some ?ma, None))"
    by (rule GetMicroservice_example_result[OF range_1_2 f3])
  have r: "map_option (\<lambda>r. (Is_within_range r ''1.9.0'', Is_within_range r ''1.10.0''))
        (search_range ''[1.0.0,2.0.0)'') = Some (Inr True, Inr True)"
    by code_simp
  have p: "parse_version ''1.9.0'' = Some [1, 9, 0]" "parse_version ''1.10.0'' = Some [1, 10, 0]"
    by code_simp+
  have c: "cmp [1, 9, 0] [1, 10, 0] = - 1"
    by code_simp
  from g1 g2 g3 r p c show ?thesis
    by blast
qed

subsection \<open>Nothing in the range\<close>

text \<open>
  C2. With the range \<^verbatim>\<open>[1.0.0,2.0.0)\<close>, \<^verbatim>\<open>GetMicroservice\<close> on an Exchange that holds no
  microservice, and \<^verbatim>\<open>GetWorkload\<close> on an Exchange whose only workload, 0.5.0, is
  outside the range, return a pointer to the zero value of the definition and no
  error, not a nil pointer.
\<close>

theorem nothing_in_range_returns_zero_value:
  "map_option fst (GetMicroservice (example_exchange [] [])
      ''U'' ''O'' ''[1.0.0,2.0.0)'' ''amd64'' ''http://x/'' ''n'' ''t'' world0)
     = Some (Returns (Some zero_MicroserviceDefinition, None))
   \<and> map_option fst (GetWorkload (example_exchange [(''a'', example_workload ''0.5.0'' [] 1)]
       [])
      ''U'' ''O'' ''[1.0.0,2.0.0)'' ''amd64'' ''http://x/'' ''n'' ''t'' world0)
     = Some (Returns (Some zero_WorkloadDefinition, None))
   \<and> map_option (\<lambda>r. Is_within_range r ''0.5.0'') (search_range ''[1.0.0,2.0.0)'')
     = Some (Inr False)"
proof -
  have f1: "GetMicroservice_found ''[1.0.0,2.0.0)'' [] (Some (GetMicroservicesResponse []))
              = Returns (Some zero_MicroserviceDefinition, None)"
    by (simp add: GetMicroservice_found_def)
  have f2: "GetWorkload_found ''[1.0.0,2.0.0)'' []
              (Some (GetWorkloadsResponse [(''a'', example_workload ''0.5.0'' [] 1)]))
              = Returns (Some zero_WorkloadDefinition, None)"
    by code_simp
  have r: "map_option (\<lambda>r. Is_within_range r ''0.5.0'') (search_range ''[1.0.0,2.0.0)'')
             = Some (Inr False)"
    by code_simp
  from GetMicroservice_example_result[OF range_1_2 f1] GetWorkload_example_result[OF range_1_2 f2] r
  show ?thesis
    by blast
qed

text \<open>
  C4. A workload 1.0.0 with one deployment declares a dependency on the microservice
  \<^verbatim>\<open>ms\<close>, version 1.0.0; the Exchange holds no microservice at all. \<^verbatim>\<open>WorkloadResolver\<close>
  returns the list of dependencies and no error: \<^verbatim>\<open>GetMicroservice\<close> never
      returns a nil
  definition, so that the test \<^verbatim>\<open>ms == nil\<close> of line 806 never holds.
\<close>

theorem missing_dependency_is_resolved:
  "map_option fst (WorkloadResolver
      (example_exchange
         [(''w'', example_workload ''1.0.0''
                    [\<lparr>as_SpecRef = ''ms'', as_Org = ''O'', as_Version = ''1.0.0'',
                      as_Arch = ''amd64''\<rparr>] 1)] [])
      ''U'' ''O'' ''1.0.0'' ''amd64'' ''http://x/'' ''n'' ''t'' world0)
     = Some (Returns (Some [APISpecification_Factory ''ms'' ''O'' ''1.0.0'' ''amd64''], None))"
proof -
  define spec where
    "spec = \<lparr>as_SpecRef = ''ms'', as_Org = ''O'', as_Version = ''1.0.0'', as_Arch =
        ''amd64''\<rparr>"
  define wl where "wl = example_workload ''1.0.0'' [spec] 1"
  define env where "env = example_exchange [(''w'', wl)] []"
  have sv: "getSearchVersion ''1.0.0'' = Inr ''1.0.0''"
    by code_simp
  obtain w1 where g: "GetWorkload env ''U'' ''O'' ''1.0.0'' ''amd64'' ''http://x/'' ''n'' ''t''
      world0
      = Some (GetWorkload_found ''1.0.0'' ''1.0.0'' (Some (GetWorkloadsResponse [(''w'', wl)])),
          w1)"
    unfolding env_def using GetWorkload_example[OF sv] by blast
  have found: "GetWorkload_found ''1.0.0'' ''1.0.0'' (Some (GetWorkloadsResponse [(''w'', wl)]))
                 = Returns (Some wl, None)"
    by (simp add: GetWorkload_found_def)
  have wl: "length (wd_Workloads wl) = 1" "wd_APISpecs wl = [spec]"
    by (simp_all add: wl_def example_workload_def)
  have "map_sum id Get_expression (Version_Expression_Factory ''1.0.0'')
          = Inr ''[1.0.0,INFINITY)''"
    by code_simp
  then obtain vExp where vexp: "Version_Expression_Factory ''1.0.0'' = Inr vExp"
      and expr: "Get_expression vExp = ''[1.0.0,INFINITY)''"
    by (cases "Version_Expression_Factory ''1.0.0''") auto
  have svr: "getSearchVersion ''[1.0.0,INFINITY)'' = Inr []"
    by code_simp
  obtain w2 where m: "GetMicroservice env ''ms'' ''O'' ''[1.0.0,INFINITY)'' ''amd64'' ''http://x/''
        ''n'' ''t'' w1
      = Some (GetMicroservice_found ''[1.0.0,INFINITY)'' [] (Some (GetMicroservicesResponse [])),
          w2)"
    unfolding env_def using GetMicroservice_example[OF svr] by blast
  have mfound: "GetMicroservice_found ''[1.0.0,INFINITY)'' [] (Some (GetMicroservicesResponse []))
                 = Returns (Some zero_MicroserviceDefinition, None)"
    by (simp add: GetMicroservice_found_def)
  have deps: "WorkloadResolver_microservices env [spec] ''http://x/'' ''n'' ''t'' w1
                = Some (Returns None, w2)"
    by (simp add: vexp expr m mfound spec_def)
  have "map_option fst (WorkloadResolver env ''U'' ''O'' ''1.0.0'' ''amd64'' ''http://x/'' ''n''
      ''t''
          world0)
        = Some (Returns (Some [APISpecification_Factory ''ms'' ''O'' ''1.0.0'' ''amd64''], None))"
    by (simp add: WorkloadResolver_def g found wl deps del: WorkloadResolver_microservices.simps)
       (simp add: spec_def)
  then show ?thesis
    unfolding env_def wl_def spec_def .
qed

subsection \<open>The status of a response\<close>

lemma InvokeExchange_completed:
  assumes "method \<noteq> []" "url \<noteq> []"
    and "InvokeExchange_body env params = Inr requestBody"
    and "InvokeExchange_request env method url user pw requestBody = Inr req"
    and "Do env (length (sent w)) req = Inr httpResp"
  shows "InvokeExchange env method url user pw params (Some resp) w =
           (fst (InvokeExchange_response env method url params
                   (drop (Do_read env (length (sent w)) req) requestBody) None httpResp resp),
            Some (snd (InvokeExchange_response env method url params
                   (drop (Do_read env (length (sent w)) req) requestBody) None httpResp resp)),
            w\<lparr>sent := sent w @ [req]\<rparr>)"
  using assms by (simp add: InvokeExchange_def split: prod.splits)

lemma InvokeExchange_not_sent:
  assumes "method \<noteq> []" "url \<noteq> []"
    and "InvokeExchange_body env params = Inr requestBody"
    and "InvokeExchange_request env method url user pw requestBody = Inr req"
    and "Do env (length (sent w)) req = Inl e"
  shows "InvokeExchange env method url user pw params (Some resp) w =
           (if isTimeout e
            then (None, Some (InvokeFailed method url
                    (drop (Do_read env (length (sent w)) req) requestBody) (Some e)))
            else (Some (InvokeFailed method url
                    (drop (Do_read env (length (sent w)) req) requestBody) (Some e)), None),
            Some resp, w\<lparr>sent := sent w @ [req]\<rparr>)"
  using assms by (simp add: InvokeExchange_def)

lemma switch_no_BadStatus:
  "fst (InvokeExchange_switch m u ps rb r) \<noteq> Some (BadStatus m' u' st b)"
  by (cases r) auto

lemma response_rejected:
  assumes "\<not> (StatusCode h = 500 \<and> Contains (fst (ReadAll_Body h)) ''timed out'')"
    and "m \<in> set matrix_methods"
    and "\<not> status_matrix m (StatusCode h)"
  shows "fst (InvokeExchange_response env m u ps rb None h r)
           = (Some (BadStatus m u (StatusCode h) (fst (ReadAll_Body h))), None)"
  using assms
  by (auto simp: InvokeExchange_response_def status_matrix_def matrix_methods_def Let_def)

lemma response_accepted:
  assumes "status_matrix m (StatusCode h) \<or> m \<notin> set matrix_methods"
  shows "fst (fst (InvokeExchange_response env m u ps rb None h r))
           \<noteq> Some (BadStatus m' u' st b)"
proof -
  define G where "G = (m = ''GET'')"
  define P where "P = (m = ''PUT'' \<or> m = ''POST'' \<or> m = ''PATCH'')"
  define D where "D = (m = ''DELETE'')"
  have g: "G \<Longrightarrow> StatusCode h = 200 \<or> StatusCode h = 404"
    using assms unfolding G_def by (auto simp: status_matrix_def matrix_methods_def)
  have p: "P \<Longrightarrow> StatusCode h = 201"
    using assms unfolding P_def by (auto simp: status_matrix_def matrix_methods_def)
  have d: "D \<Longrightarrow> StatusCode h = 204"
    using assms unfolding D_def by (auto simp: status_matrix_def matrix_methods_def)
  have sw: "fst (fst (case json_Unmarshal env ob r of
                   Inl e \<Rightarrow> ((Some (DemarshalFailed ob m u e), None), r)
                 | Inr r' \<Rightarrow> (InvokeExchange_switch m u ps rb r', r')))
              \<noteq> Some (BadStatus m' u' st b)" for ob
    by (cases "json_Unmarshal env ob r") (simp_all add: switch_no_BadStatus)
  have "InvokeExchange_response env m u ps rb None h r =
     (if StatusCode h = 500 \<and> Contains (fst (ReadAll_Body h)) ''timed out'' then
        ((None, Some (InvokeFailed m u rb None)), r)
      else if G \<and> (StatusCode h \<noteq> 200 \<and> StatusCode h \<noteq> 404) then
        ((Some (BadStatus m u (StatusCode h) (fst (ReadAll_Body h))), None), r)
      else if P \<and> StatusCode h \<noteq> 201 then
        ((Some (BadStatus m u (StatusCode h) (fst (ReadAll_Body h))), None), r)
      else if D \<and> StatusCode h \<noteq> 204 then
        ((Some (BadStatus m u (StatusCode h) (fst (ReadAll_Body h))), None), r)
      else if D then ((None, None), r)
      else
        (case json_Unmarshal env (fst (ReadAll_Body h)) r of
           Inl e \<Rightarrow> ((Some (DemarshalFailed (fst (ReadAll_Body h)) m u e), None), r)
         | Inr r' \<Rightarrow> (InvokeExchange_switch m u ps rb r', r')))"
    unfolding InvokeExchange_response_def Let_def G_def P_def D_def by simp
  then show ?thesis
    using g p d sw[of "fst (ReadAll_Body h)"] by (simp only: fst_conv split: if_split) blast
qed

lemma response_timed_out:
  assumes "StatusCode h = 500 \<and> Contains (fst (ReadAll_Body h)) ''timed out''"
  shows "fst (InvokeExchange_response env m u ps rb None h r)
           = (None, Some (InvokeFailed m u rb None))"
  using assms by (simp add: InvokeExchange_response_def Let_def)

text \<open>
  C5, as the spec states it, fails twice. A \<^verbatim>\<open>GET\<close> answered with status 500, which
  the matrix does not expect, and a body that contains "timed out" gives no
  application error; the error is the second result, and its message does not carry
  the body of the response. And a method that the matrix does not name, here
  \<^verbatim>\<open>OPTIONS\<close>, has status 500 accepted: the call returns no error at all.
\<close>

theorem status_500_timed_out_counterexample:
  "\<not> status_matrix ''GET'' 500
   \<and> fst (InvokeExchange
        (network_answering
           (Inr \<lparr>StatusCode = 500, Body = Some (''upstream request timed out'', None)\<rparr>))
        ''GET'' ''http://x/orgs/O'' ''n'' ''t'' None (Some (GetOrganizationResponse [])) world0)
     = (None, Some (InvokeFailed ''GET'' ''http://x/orgs/O'' [] None))
   \<and> \<not> status_matrix ''OPTIONS'' 500
   \<and> fst (InvokeExchange
        (network_answering (Inr \<lparr>StatusCode = 500, Body = Some (''{}'', None)\<rparr>))
        ''OPTIONS'' ''http://x/orgs/O'' ''n'' ''t'' None (Some (GetOrganizationResponse []))
        world0)
     = (None, None)"
  by code_simp

text \<open>
  C5, amended. For a completed HTTP exchange (the request was built and
  \<^verbatim>\<open>httpClient.Do\<close> returned a response): a response with status 500 whose body contains
  "timed out" yields a transport error, whose message carries what is left of the body
  of the request; otherwise, for the methods of the matrix, a status that the matrix
  \<open>GET \<rightarrow> 200 \<or> 404\<close>, \<open>PUT|POST|PATCH \<rightarrow> 201\<close>, \<open>DELETE \<rightarrow> 204\<close> does not expect yields the
  application error that carries the status and the body of the response; and that
  error is never returned for a status that the matrix expects, nor for a method that
  the matrix does not name.
\<close>

theorem status_matrix_decides:
  assumes "method \<noteq> []" "url \<noteq> []"
    and "InvokeExchange_body env params = Inr requestBody"
    and "InvokeExchange_request env method url user pw requestBody = Inr req"
    and "Do env (length (sent w)) req = Inr httpResp"
  shows "(StatusCode httpResp = 500 \<and> Contains (fst (ReadAll_Body httpResp)) ''timed out'' \<longrightarrow>
            fst (InvokeExchange env method url user pw params (Some resp) w)
              = (None, Some (InvokeFailed method url
                               (drop (Do_read env (length (sent w)) req) requestBody) None)))
       \<and> (\<not> (StatusCode httpResp = 500 \<and> Contains (fst (ReadAll_Body httpResp)) ''timed out'')
            \<and> method \<in> set matrix_methods
            \<and> \<not> status_matrix method (StatusCode httpResp) \<longrightarrow>
            fst (InvokeExchange env method url user pw params (Some resp) w)
              = (Some (BadStatus method url (StatusCode httpResp) (fst (ReadAll_Body httpResp))),
                 None))
       \<and> (status_matrix method (StatusCode httpResp) \<or> method \<notin> set matrix_methods \<longrightarrow>
            (\<forall>m u st b. fst (fst (InvokeExchange env method url user pw params (Some resp) w))
                          \<noteq> Some (BadStatus m u st b)))"
proof -
  let ?rb = "drop (Do_read env (length (sent w)) req) requestBody"
  note eq = InvokeExchange_completed[OF assms, of resp]
  show ?thesis
    using response_timed_out[of httpResp env "method" url params ?rb resp]
      response_rejected[of httpResp "method" env url params ?rb resp]
      response_accepted[of "method" httpResp env url params ?rb resp]
    by (simp add: eq)
qed

theorem status_matrix_decides_witness:
  "fst (InvokeExchange
        (network_answering (Inr \<lparr>StatusCode = 403, Body = Some (''access denied'', None)\<rparr>))
        ''GET'' ''http://x/orgs/O'' ''n'' ''t'' None (Some (GetOrganizationResponse [])) world0)
     = (Some (BadStatus ''GET'' ''http://x/orgs/O'' 403 ''access denied''), None)
   \<and> fst (InvokeExchange
        (network_answering
           (Inr \<lparr>StatusCode = 500, Body = Some (''the request timed out'', None)\<rparr>))
        ''POST'' ''http://x/orgs/O/changes'' ''n'' ''t'' (Some ''[5,1000]'')
        (Some (PostDeviceResponse [] [])) world0)
     = (None, Some (InvokeFailed ''POST'' ''http://x/orgs/O/changes'' [] None))"
proof -
  define h1 where "h1 = \<lparr>StatusCode = 403, Body = Some (''access denied'', None)\<rparr>"
  define h2 where "h2 = \<lparr>StatusCode = 500, Body = Some (''the request timed out'', None)\<rparr>"
  have m: "''GET'' \<noteq> []" "''POST'' \<noteq> []" and u: "''http://x/orgs/O'' \<noteq> []"
    "''http://x/orgs/O/changes'' \<noteq> []"
    by simp_all
  have p1: "InvokeExchange_body (network_answering (Inr h1)) None = Inr []"
    by simp
  have p2: "InvokeExchange_body (network_answering (Inr h2)) (Some ''[5,1000]'') = Inr ''[5,1000]''"
    by (simp add: InvokeExchange_body_def network_answering_def)
  obtain rq1 where rq1: "InvokeExchange_request (network_answering (Inr h1)) ''GET''
      ''http://x/orgs/O'' ''n'' ''t'' [] = Inr rq1"
    by (simp add: InvokeExchange_request_def network_answering_def)
  obtain rq2 where rq2: "InvokeExchange_request (network_answering (Inr h2)) ''POST''
      ''http://x/orgs/O/changes'' ''n'' ''t'' ''[5,1000]'' = Inr rq2"
    and b2: "rq_Body rq2 = ''[5,1000]''"
    by (simp add: InvokeExchange_request_def network_answering_def)
  have d1: "Do (network_answering (Inr h1)) (length (sent world0)) rq1 = Inr h1"
    and d2: "Do (network_answering (Inr h2)) (length (sent world0)) rq2 = Inr h2"
    by (simp_all add: network_answering_def)
  have r2: "drop (Do_read (network_answering (Inr h2)) (length (sent world0)) rq2) ''[5,1000]'' = []"
    by (simp add: network_answering_def b2)
  have s1: "\<not> (StatusCode h1 = 500 \<and> Contains (fst (ReadAll_Body h1)) ''timed out'')
            \<and> ''GET'' \<in> set matrix_methods \<and> \<not> status_matrix ''GET'' (StatusCode h1)"
    by (simp add: h1_def status_matrix_def matrix_methods_def)
  have s2: "StatusCode h2 = 500 \<and> Contains (fst (ReadAll_Body h2)) ''timed out''"
    unfolding h2_def by code_simp
  have b1: "StatusCode h1 = 403" "fst (ReadAll_Body h1) = ''access denied''"
    by (simp_all add: h1_def ReadAll_Body_def)
  from status_matrix_decides[OF m(1) u(1) p1 rq1 d1, of "GetOrganizationResponse []"] s1 b1
  have w1: "fst (InvokeExchange (network_answering (Inr h1)) ''GET'' ''http://x/orgs/O'' ''n'' ''t''
              None (Some (GetOrganizationResponse [])) world0)
            = (Some (BadStatus ''GET'' ''http://x/orgs/O'' 403 ''access denied''), None)"
    by simp
  from status_matrix_decides[OF m(2) u(2) p2 rq2 d2, of "PostDeviceResponse [] []"] s2 r2
  have w2: "fst (InvokeExchange (network_answering (Inr h2)) ''POST'' ''http://x/orgs/O/changes''
              ''n'' ''t'' (Some ''[5,1000]'') (Some (PostDeviceResponse [] [])) world0)
            = (None, Some (InvokeFailed ''POST'' ''http://x/orgs/O/changes'' [] None))"
    by simp
  from w1 w2 show ?thesis
    unfolding h1_def h2_def by simp
qed

subsection \<open>Transport errors and application errors\<close>

lemma InvokeExchange_unsent:
  assumes "\<not> (\<exists>r rb req. resp = Some r \<and> method \<noteq> [] \<and> url \<noteq> []
              \<and> InvokeExchange_body env params = Inr rb
              \<and> InvokeExchange_request env method url user pw rb = Inr req)"
  shows "snd (fst (InvokeExchange env method url user pw params resp w)) = None"
  using assms
  by (auto simp: InvokeExchange_def split: option.splits sum.splits)

text \<open>
  C6, as the spec states it, fails: here a refused connection and a failed DNS lookup
  are errors of \<^verbatim>\<open>httpClient.Do\<close> whose text does not hold both "time" and "out", and
  \<^verbatim>\<open>InvokeExchange\<close> returns them as application errors.
\<close>

theorem connection_refused_counterexample:
  "fst (InvokeExchange
        (network_answering (Inl
            ''Get http://x/orgs/O: dial tcp 10.0.0.1:80: connect: connection refused''))
        ''GET'' ''http://x/orgs/O'' ''n'' ''t'' None (Some (GetOrganizationResponse [])) world0)
     = (Some (InvokeFailed ''GET'' ''http://x/orgs/O'' []
               (Some ''Get http://x/orgs/O: dial tcp 10.0.0.1:80: connect: connection refused'')),
                   None)
   \<and> fst (InvokeExchange
        (network_answering (Inl ''Get http://x/orgs/O: dial tcp: lookup x: no such host''))
        ''GET'' ''http://x/orgs/O'' ''n'' ''t'' None (Some (GetOrganizationResponse [])) world0)
     = (Some (InvokeFailed ''GET'' ''http://x/orgs/O'' []
               (Some ''Get http://x/orgs/O: dial tcp: lookup x: no such host'')), None)"
  by code_simp

text \<open>
  C6, amended. \<^verbatim>\<open>InvokeExchange\<close> returns a transport error exactly when the request was
  sent and either \<^verbatim>\<open>httpClient.Do\<close> failed with an error whose text, in lower case,
  contains both "time" and "out", whatever the kind of the failure, or the response has
  status 500 and a body that contains "timed out"; and it never returns both errors.
  So a refused connection or a failed DNS lookup is a transport error when its text
  passes that test and an application error when it does not. The statement is about
  responses whose body was read without error.
\<close>

theorem transport_classification:
  assumes "\<forall>req h. Do env (length (sent w)) req = Inr h \<longrightarrow> snd
      (ReadAll_Body h) = None"
  shows "(snd (fst (InvokeExchange env method url user pw params resp w)) \<noteq> None
          \<longleftrightarrow> (\<exists>r rb req. resp = Some r \<and> method \<noteq> [] \<and>
              url \<noteq> []
                \<and> InvokeExchange_body env params = Inr rb
                \<and> InvokeExchange_request env method url user pw rb = Inr req
                \<and> ((\<exists>e. Do env (length (sent w)) req = Inl e \<and> isTimeout e)
                   \<or> (\<exists>h. Do env (length (sent w)) req = Inr h \<and> StatusCode h = 500
                          \<and> Contains (fst (ReadAll_Body h)) ''timed out''))))
       \<and> (fst (fst (InvokeExchange env method url user pw params resp w)) = None
          \<or> snd (fst (InvokeExchange env method url user pw params resp w)) = None)"
proof (intro conjI)
  show "fst (fst (InvokeExchange env method url user pw params resp w)) = None
          \<or> snd (fst (InvokeExchange env method url user pw params resp w)) = None"
    by (rule InvokeExchange_one_error)
next
  show "snd (fst (InvokeExchange env method url user pw params resp w)) \<noteq> None
          \<longleftrightarrow> (\<exists>r rb req. resp = Some r \<and> method \<noteq> [] \<and>
              url \<noteq> []
                \<and> InvokeExchange_body env params = Inr rb
                \<and> InvokeExchange_request env method url user pw rb = Inr req
                \<and> ((\<exists>e. Do env (length (sent w)) req = Inl e \<and> isTimeout e)
                   \<or> (\<exists>h. Do env (length (sent w)) req = Inr h \<and> StatusCode h = 500
                          \<and> Contains (fst (ReadAll_Body h)) ''timed out'')))"
  proof (cases "\<exists>r rb req. resp = Some r \<and> method \<noteq> [] \<and> url \<noteq> []
              \<and> InvokeExchange_body env params = Inr rb
              \<and> InvokeExchange_request env method url user pw rb = Inr req")
    case False
    then have "snd (fst (InvokeExchange env method url user pw params resp w)) = None"
      by (rule InvokeExchange_unsent)
    moreover from False have "\<not> (\<exists>r rb req. resp = Some r \<and> method \<noteq> []
        \<and> url \<noteq> []
                \<and> InvokeExchange_body env params = Inr rb
                \<and> InvokeExchange_request env method url user pw rb = Inr req
                \<and> ((\<exists>e. Do env (length (sent w)) req = Inl e \<and> isTimeout e)
                   \<or> (\<exists>h. Do env (length (sent w)) req = Inr h \<and> StatusCode h = 500
                          \<and> Contains (fst (ReadAll_Body h)) ''timed out'')))"
      by blast
    ultimately show ?thesis
      by simp
  next
    case True
    then obtain r rb req where sent: "resp = Some r" "method \<noteq> []" "url \<noteq> []"
        "InvokeExchange_body env params = Inr rb"
        "InvokeExchange_request env method url user pw rb = Inr req"
      by blast
    show ?thesis
    proof (cases "Do env (length (sent w)) req")
      case (Inl e)
      from InvokeExchange_not_sent[OF sent(2,3,4,5) Inl, of r] sent Inl show ?thesis
        by simp
    next
      case (Inr h)
      from InvokeExchange_completed[OF sent(2,3,4,5) Inr, of r] sent Inr
        response_transport_iff[of env "method" url params
          "drop (Do_read env (length (sent w)) req) rb" h r]
      show ?thesis
        by simp
    qed
  qed
qed

theorem transport_classification_witness:
  "snd (fst (InvokeExchange
        (network_answering (Inr \<lparr>StatusCode = 500, Body = Some (''the request timed out'',
            None)\<rparr>))
        ''GET'' ''http://x/orgs/O'' ''n'' ''t'' None (Some (GetOrganizationResponse [])) world0))
     \<noteq> None
   \<and> snd (fst (InvokeExchange
        (network_answering (Inr \<lparr>StatusCode = 500, Body = Some (''internal error'',
            None)\<rparr>))
        ''GET'' ''http://x/orgs/O'' ''n'' ''t'' None (Some (GetOrganizationResponse [])) world0))
     = None
   \<and> snd (fst (InvokeExchange
        (network_answering (Inl ''Get http://x/orgs/O: dial tcp: lookup x: i/o timeout''))
        ''GET'' ''http://x/orgs/O'' ''n'' ''t'' None (Some (GetOrganizationResponse [])) world0))
     \<noteq> None"
proof -
  define h1 where "h1 = \<lparr>StatusCode = 500, Body = Some (''the request timed out'',
      None)\<rparr>"
  define h2 where "h2 = \<lparr>StatusCode = 500, Body = Some (''internal error'', None)\<rparr>"
  define e3 where "e3 = ''Get http://x/orgs/O: dial tcp: lookup x: i/o timeout''"
  define E1 where "E1 = network_answering (Inr h1)"
  define E2 where "E2 = network_answering (Inr h2)"
  define E3 where "E3 = network_answering (Inl e3)"
  let ?call = "\<lambda>E. InvokeExchange E ''GET'' ''http://x/orgs/O'' ''n'' ''t'' None
                     (Some (GetOrganizationResponse [])) world0"
  have d1: "\<And>n req. Do E1 n req = Inr h1" and d2: "\<And>n req. Do E2 n req = Inr h2"
    and d3: "\<And>n req. Do E3 n req = Inl e3"
    by (simp_all add: E1_def E2_def E3_def network_answering_def)
  have read1: "\<forall>req h. Do E1 (length (sent world0)) req = Inr h \<longrightarrow> snd
      (ReadAll_Body h) = None"
    and read2: "\<forall>req h. Do E2 (length (sent world0)) req = Inr h \<longrightarrow> snd
        (ReadAll_Body h) = None"
    and read3: "\<forall>req h. Do E3 (length (sent world0)) req = Inr h \<longrightarrow> snd
        (ReadAll_Body h) = None"
    by (auto simp: d1 d2 d3 h1_def h2_def ReadAll_Body_def)
  have c1: "Contains (fst (ReadAll_Body h1)) ''timed out''"
    and c2: "\<not> Contains (fst (ReadAll_Body h2)) ''timed out''"
    unfolding h1_def h2_def by code_simp+
  have c3: "isTimeout e3"
    unfolding e3_def by code_simp
  have s1: "StatusCode h1 = 500"
    by (simp add: h1_def)
  obtain rq where rq: "InvokeExchange_request E1 ''GET'' ''http://x/orgs/O'' ''n'' ''t'' [] = Inr
      rq"
    by (simp add: InvokeExchange_request_def E1_def network_answering_def)
  obtain rq3 where rq3: "InvokeExchange_request E3 ''GET'' ''http://x/orgs/O'' ''n'' ''t'' [] = Inr
      rq3"
    by (simp add: InvokeExchange_request_def E3_def network_answering_def)
  note T1 = transport_classification[of E1 world0 "''GET''" "''http://x/orgs/O''" "''n''" "''t''"
      None "Some (GetOrganizationResponse [])", OF read1, THEN conjunct1]
  note T2 = transport_classification[of E2 world0 "''GET''" "''http://x/orgs/O''" "''n''" "''t''"
      None "Some (GetOrganizationResponse [])", OF read2, THEN conjunct1]
  note T3 = transport_classification[of E3 world0 "''GET''" "''http://x/orgs/O''" "''n''" "''t''"
      None "Some (GetOrganizationResponse [])", OF read3, THEN conjunct1]
  have "Do E1 (length (sent world0)) rq = Inr h1 \<and> StatusCode h1 = 500
          \<and> Contains (fst (ReadAll_Body h1)) ''timed out''"
    by (simp add: d1 s1 c1)
  then have "\<exists>r rb req. Some (GetOrganizationResponse []) = Some r \<and> ''GET'' \<noteq>
      []
          \<and> ''http://x/orgs/O'' \<noteq> [] \<and> InvokeExchange_body E1 None = Inr rb
          \<and> InvokeExchange_request E1 ''GET'' ''http://x/orgs/O'' ''n'' ''t'' rb = Inr req
          \<and> ((\<exists>e. Do E1 (length (sent world0)) req = Inl e \<and> isTimeout e)
             \<or> (\<exists>h. Do E1 (length (sent world0)) req = Inr h \<and> StatusCode h = 500
                    \<and> Contains (fst (ReadAll_Body h)) ''timed out''))"
    using rq by (intro exI[of _ "GetOrganizationResponse []"] exI[of _ "[]"] exI[of _ rq]) simp
  then have t1: "snd (fst (?call E1)) \<noteq> None"
    by (rule T1[THEN iffD2])
  have "snd (fst (?call E2)) \<noteq> None \<Longrightarrow> False"
  proof -
    assume "snd (fst (?call E2)) \<noteq> None"
    from T2[THEN iffD1, OF this] obtain req h where
      "Do E2 (length (sent world0)) req = Inr h" "Contains (fst (ReadAll_Body h)) ''timed out''"
      by (auto simp: d2)
    with c2 show False
      by (simp add: d2)
  qed
  then have t2: "snd (fst (?call E2)) = None"
    by blast
  have "Do E3 (length (sent world0)) rq3 = Inl e3 \<and> isTimeout e3"
    by (simp add: d3 c3)
  then have "\<exists>r rb req. Some (GetOrganizationResponse []) = Some r \<and> ''GET'' \<noteq>
      []
          \<and> ''http://x/orgs/O'' \<noteq> [] \<and> InvokeExchange_body E3 None = Inr rb
          \<and> InvokeExchange_request E3 ''GET'' ''http://x/orgs/O'' ''n'' ''t'' rb = Inr req
          \<and> ((\<exists>e. Do E3 (length (sent world0)) req = Inl e \<and> isTimeout e)
             \<or> (\<exists>h. Do E3 (length (sent world0)) req = Inr h \<and> StatusCode h = 500
                    \<and> Contains (fst (ReadAll_Body h)) ''timed out''))"
    using rq3 by (intro exI[of _ "GetOrganizationResponse []"] exI[of _ "[]"] exI[of _ rq3]) simp
  then have t3: "snd (fst (?call E3)) \<noteq> None"
    by (rule T3[THEN iffD2])
  from t1 t2 t3 show ?thesis
    unfolding E1_def E2_def E3_def h1_def h2_def e3_def by simp
qed

subsection \<open>The headers of a request\<close>

lemma InvokeExchange_sent:
  "sent (snd (snd (InvokeExchange env method url user pw params resp w))) = sent w
   \<or> (\<exists>rb req. InvokeExchange_body env params = Inr rb
          \<and> InvokeExchange_request env method url user pw rb = Inr req
          \<and> sent (snd (snd (InvokeExchange env method url user pw params resp w))) = sent w @
              [req])"
  by (auto simp: InvokeExchange_def split: option.splits sum.splits prod.splits)

text \<open>
  C7, as the spec states it, fails twice. A \<^verbatim>\<open>GET\<close> request with parameters has a body
  and no \<^verbatim>\<open>Content-Type\<close> header. And the value of its \<^verbatim>\<open>Authorization\<close> header, for
  the user \<^verbatim>\<open>n\<close> and the password \<^verbatim>\<open>t\<close>, is \<^verbatim>\<open>Basic n:t\<close>, the user and the password
  as they are, where the credentials of HTTP Basic authentication are \<^verbatim>\<open>Basic bjp0\<close>,
  their base64 encoding.
\<close>

theorem get_with_body_counterexample:
  "map (\<lambda>rq. (rq_Body rq, map fst (rq_Header rq)))
     (sent (snd (snd (InvokeExchange
        (network_answering (Inr \<lparr>StatusCode = 200, Body = Some (''{}'', None)\<rparr>))
        ''GET'' ''http://x/orgs/O/changes'' ''n'' ''t'' (Some ''[5,1000]'')
        (Some (GetOrganizationResponse [])) world0))))
   = [(''[5,1000]'', [''Accept'', ''Authorization''])]
   \<and> map (\<lambda>rq. map_of (rq_Header rq) ''Authorization'')
     (sent (snd (snd (InvokeExchange
        (network_answering (Inr \<lparr>StatusCode = 200, Body = Some (''{}'', None)\<rparr>))
        ''GET'' ''http://x/orgs/O/changes'' ''n'' ''t'' (Some ''[5,1000]'')
        (Some (GetOrganizationResponse [])) world0))))
   = [Some ''Basic n:t'']
   \<and> http_basic_credentials ''n'' ''t'' = ''Basic bjp0''"
  by code_simp

text \<open>
  C7, amended. The request that \<^verbatim>\<open>InvokeExchange\<close> builds is the one it sends; it
  carries \<^verbatim>\<open>Accept: application/json\<close>; it carries \<^verbatim>\<open>Content-Type: application/json\<close>
  exactly when the method is not \<^verbatim>\<open>GET\<close>, whether or not it has a body; and it carries
  an \<^verbatim>\<open>Authorization\<close> header exactly when both the user and the password are
  non-empty, with the value \<^verbatim>\<open>Basic\<close>, a blank, the user, a colon and the password, as
  they are given and not in base64.
\<close>

theorem request_headers:
  assumes "method \<noteq> []" "url \<noteq> []"
    and "InvokeExchange_body env params = Inr requestBody"
    and "InvokeExchange_request env method url user pw requestBody = Inr req"
  shows "sent (snd (snd (InvokeExchange env method url user pw params (Some resp) w)))
           = sent w @ [req]
       \<and> rq_Method req = method \<and> rq_URL req = url \<and> rq_Body req = requestBody
       \<and> (''Accept'', ''application/json'') \<in> set (rq_Header req)
       \<and> ((''Content-Type'', ''application/json'') \<in> set (rq_Header req)
           \<longleftrightarrow> method \<noteq> ''GET'')
       \<and> (''Content-Type'' \<in> fst ` set (rq_Header req) \<longleftrightarrow> method
           \<noteq> ''GET'')
       \<and> ((''Authorization'', ''Basic '' @ user @ '':'' @ pw) \<in> set (rq_Header req)
            \<longleftrightarrow> user \<noteq> [] \<and> pw \<noteq> [])
       \<and> (''Authorization'' \<in> fst ` set (rq_Header req) \<longleftrightarrow> user
           \<noteq> [] \<and> pw \<noteq> [])"
proof -
  have "sent (snd (snd (InvokeExchange env method url user pw params (Some resp) w)))
          = sent w @ [req]"
  proof (cases "Do env (length (sent w)) req")
    case (Inl e)
    from InvokeExchange_not_sent[OF assms Inl, of resp] show ?thesis
      by simp
  next
    case (Inr h)
    from InvokeExchange_completed[OF assms Inr, of resp] show ?thesis
      by simp
  qed
  moreover have "rq_Method req = method \<and> rq_URL req = url \<and> rq_Body req = requestBody
       \<and> (''Accept'', ''application/json'') \<in> set (rq_Header req)
       \<and> ((''Content-Type'', ''application/json'') \<in> set (rq_Header req)
           \<longleftrightarrow> method \<noteq> ''GET'')
       \<and> (''Content-Type'' \<in> fst ` set (rq_Header req) \<longleftrightarrow> method
           \<noteq> ''GET'')
       \<and> ((''Authorization'', ''Basic '' @ user @ '':'' @ pw) \<in> set (rq_Header req)
            \<longleftrightarrow> user \<noteq> [] \<and> pw \<noteq> [])
       \<and> (''Authorization'' \<in> fst ` set (rq_Header req) \<longleftrightarrow> user
           \<noteq> [] \<and> pw \<noteq> [])"
    using assms(4) by (auto simp: InvokeExchange_request_def split: option.splits)
  ultimately show ?thesis
    by blast
qed

theorem request_headers_witness:
  "set (concat (map rq_Header (sent (snd (snd (InvokeExchange
        (network_answering (Inr \<lparr>StatusCode = 201, Body = Some (''{}'', None)\<rparr>))
        ''POST'' ''http://x/orgs/O/changes'' ''n'' ''t'' (Some ''[5,1000]'')
        (Some (PostDeviceResponse [] [])) world0))))))
   = {(''Accept'', ''application/json''), (''Content-Type'', ''application/json''),
      (''Authorization'', ''Basic n:t'')}"
proof -
  define E where "E = network_answering (Inr \<lparr>StatusCode = 201, Body = Some (''{}'',
      None)\<rparr>)"
  have m: "''POST'' \<noteq> []" and u: "''http://x/orgs/O/changes'' \<noteq> []"
    by simp_all
  have b: "InvokeExchange_body E (Some ''[5,1000]'') = Inr ''[5,1000]''"
    by (simp add: InvokeExchange_body_def E_def network_answering_def)
  obtain req where rq: "InvokeExchange_request E ''POST'' ''http://x/orgs/O/changes'' ''n'' ''t''
      ''[5,1000]'' = Inr req" and h: "rq_Header req =
        [(''Accept'', ''application/json''), (''Content-Type'', ''application/json''),
         (''Authorization'', ''Basic n:t'')]"
    by (simp add: InvokeExchange_request_def E_def network_answering_def)
  from request_headers[OF m u b rq, of "PostDeviceResponse [] []" world0]
  have "sent (snd (snd (InvokeExchange E ''POST'' ''http://x/orgs/O/changes'' ''n'' ''t''
          (Some ''[5,1000]'') (Some (PostDeviceResponse [] [])) world0))) = sent world0 @ [req]"
    by blast
  then show ?thesis
    unfolding E_def by (simp add: world0_def h)
qed

subsection \<open>The values of the two errors\<close>

lemma switch_no_InvokeFailed:
  "fst (InvokeExchange_switch m u ps rb r) \<noteq> Some (InvokeFailed m' u' rb' x)"
  by (cases r) auto

lemma response_error_values:
  "(snd (fst (InvokeExchange_response env m u ps rb None h r)) = Some e
      \<longrightarrow> e = InvokeFailed m u rb None)
   \<and> (fst (fst (InvokeExchange_response env m u ps rb None h r)) = Some e
      \<longrightarrow> (\<forall>m' u' rb' x. e \<noteq> InvokeFailed m' u' rb' x))"
  by (auto simp: InvokeExchange_response_def Let_def switch_no_transport switch_no_InvokeFailed
        split: sum.splits)

lemma unsent_error_value:
  assumes "\<not> (\<exists>r rb req. resp = Some r \<and> m \<noteq> [] \<and> u \<noteq> []
              \<and> InvokeExchange_body env ps = Inr rb
              \<and> InvokeExchange_request env m u us pw rb = Inr req)"
  shows "fst (fst (InvokeExchange env m u us pw ps resp w)) \<noteq> Some (InvokeFailed m' u' rb'
      x)"
  using assms
  by (auto simp: InvokeExchange_def split: option.splits sum.splits)

lemma error_values:
  "(snd (fst (InvokeExchange env m u us pw ps resp w)) = Some e
      \<longrightarrow> (\<exists>rb. e = InvokeFailed m u rb None
                \<or> (\<exists>t. e = InvokeFailed m u rb (Some t) \<and> isTimeout t)))
   \<and> (fst (fst (InvokeExchange env m u us pw ps resp w)) = Some e
      \<longrightarrow> (\<forall>m' u' rb. e \<noteq> InvokeFailed m' u' rb None)
          \<and> (\<forall>m' u' rb t. e = InvokeFailed m' u' rb (Some t) \<longrightarrow> \<not>
              isTimeout t))"
proof (cases "\<exists>r rb req. resp = Some r \<and> m \<noteq> [] \<and> u \<noteq> []
              \<and> InvokeExchange_body env ps = Inr rb
              \<and> InvokeExchange_request env m u us pw rb = Inr req")
  case False
  from InvokeExchange_unsent[OF False] unsent_error_value[OF False] show ?thesis
    by auto
next
  case True
  then obtain r rb req where sent: "resp = Some r" "m \<noteq> []" "u \<noteq> []"
      "InvokeExchange_body env ps = Inr rb" "InvokeExchange_request env m u us pw rb = Inr req"
    by blast
  show ?thesis
  proof (cases "Do env (length (sent w)) req")
    case (Inl t)
    from InvokeExchange_not_sent[OF sent(2,3,4,5) Inl, of r] sent(1) show ?thesis
      by auto
  next
    case (Inr h)
    from InvokeExchange_completed[OF sent(2,3,4,5) Inr, of r] sent(1)
      response_error_values[of env m u ps
        "drop (Do_read env (length (sent w)) req) rb" h r e]
    show ?thesis
      by auto
  qed
qed

lemma application_error_not_transport:
  assumes "fst (fst (InvokeExchange env m u us pw ps resp w)) = Some e"
  shows "snd (fst (InvokeExchange env' m' u' us' pw' ps' resp' w')) \<noteq> Some e"
  using error_values[of env m u us pw ps resp w e]
    error_values[of env' m' u' us' pw' ps' resp' w' e] assms
  by auto

subsection \<open>What the loops return\<close>

lemma transport_error_is_InvokeFailed:
  assumes "is_transport_error e"
  shows "\<exists>m u rb x. e = InvokeFailed m u rb x"
proof -
  from assms obtain env m u us pw ps resp w where
    "snd (fst (InvokeExchange env m u us pw ps resp w)) = Some e"
    unfolding is_transport_error_def by blast
  with error_values[of env m u us pw ps resp w e] show ?thesis
    by blast
qed

lemma GetWorkload_range_errors:
  "GetWorkload_range vr ws h d = Returns (x, Some e) \<Longrightarrow> \<exists>a b c. e =
      UnableToVerify a b c"
  by (induction vr ws h d rule: GetWorkload_range.induct) (auto split: sum.splits if_splits)

lemma GetMicroservice_range_errors:
  "GetMicroservice_range vr ms h d = Returns (x, Some e) \<Longrightarrow> \<exists>a b c. e =
      UnableToVerify a b c"
  by (induction vr ms h d rule: GetMicroservice_range.induct) (auto split: sum.splits if_splits)

lemma GetWorkload_found_errors:
  assumes "GetWorkload_found v sv r = Returns (x, Some e)"
  shows "\<not> is_transport_error e"
proof -
  have "(\<exists>n. e = ExpectingOneWorkload n) \<or> (\<exists>a b c. e = UnableToVerify a b c)"
  proof (cases r)
    case None
    with assms show ?thesis
      by (simp add: GetWorkload_found_def)
  next
    case (Some resp)
    with assms show ?thesis
      by (cases resp) (auto simp: GetWorkload_found_def split: if_splits option.splits 
            dest: GetWorkload_range_errors)
  qed
  then show ?thesis
    using transport_error_is_InvokeFailed[of e] by auto
qed

lemma GetMicroservice_found_errors:
  assumes "GetMicroservice_found v sv r = Returns (x, Some e)"
  shows "\<not> is_transport_error e"
proof -
  have "(\<exists>n. e = ExpectingOneMicroservice n) \<or> (\<exists>a b c. e = UnableToVerify a b
      c)"
  proof (cases r)
    case None
    with assms show ?thesis
      by (simp add: GetMicroservice_found_def)
  next
    case (Some resp)
    with assms show ?thesis
      by (cases resp) (auto simp: GetMicroservice_found_def split: if_splits option.splits 
            dest: GetMicroservice_range_errors)
  qed
  then show ?thesis
    using transport_error_is_InvokeFailed[of e] by auto
qed

lemma GetOrganization_found_errors:
  assumes "GetOrganization_found org r = Returns (x, Some e)"
  shows "\<not> is_transport_error e"
proof -
  have "\<exists>n. e = OrganizationNotFound n"
  proof (cases r)
    case None
    with assms show ?thesis
      by (simp add: GetOrganization_found_def)
  next
    case (Some resp)
    with assms show ?thesis
      by (cases resp) (auto simp: GetOrganization_found_def split: if_splits option.splits )
  qed
  then show ?thesis
    using transport_error_is_InvokeFailed[of e] by auto
qed

lemma GetEthereumClient_found_errors:
  assumes "GetEthereumClient_found cn r = Returns (x, Some e)"
  shows "\<not> is_transport_error e"
proof -
  have "False"
  proof (cases r)
    case None
    with assms show ?thesis
      by (simp add: GetEthereumClient_found_def)
  next
    case (Some resp)
    with assms show ?thesis
      by (cases resp) (auto simp: GetEthereumClient_found_def split: if_splits option.splits )
  qed
  then show ?thesis
    using transport_error_is_InvokeFailed[of e] by auto
qed


lemma GetWorkload_loop_outcome:
  assumes "GetWorkload_loop env v sv u i t resp w = Some (r, w')"
  shows "\<exists>k. settles_after env u i t resp w k \<and> slept w' = slept w + 10 * k
            \<and> (\<forall>x e. r = Returns (x, Some e) \<longrightarrow> \<not>
                is_transport_error e)"
proof -
  let ?step = "retry_step env u i t resp"
  from GetWorkload_loop_returns[OF assms] obtain k where
    k: "\<forall>j<k. transport_failed (InvokeExchange env ''GET'' u i t None resp ((?step ^^ j)
        w))"
       "\<not> transport_failed (InvokeExchange env ''GET'' u i t None resp ((?step ^^ k) w))"
    by blast
  then have settles: "settles_after env u i t resp w k"
    by (simp add: settles_after_def)
  have eq: "GetWorkload_loop env v sv u i t resp w = GetWorkload_loop env v sv u i t resp ((?step
      ^^ k) w)"
    using k(1) by (intro GetWorkload_loop_skip) simp
  have slept: "slept (snd (snd (InvokeExchange env ''GET'' u i t None resp ((?step ^^ k) w))))
                 = slept w + 10 * k"
    by (simp add: InvokeExchange_slept slept_retry_steps)
  from not_transport_failed_cases[OF k(2)]
  consider (err) e r' w'' where
      "InvokeExchange env ''GET'' u i t None resp ((?step ^^ k) w) = ((Some e, None), r', w'')"
    | (ok) r' w'' where
      "InvokeExchange env ''GET'' u i t None resp ((?step ^^ k) w) = ((None, None), r', w'')"
    by blast
  then show ?thesis
  proof cases
    case err
    from GetWorkload_loop_error[OF err] eq assms have r: "r = Returns (None, Some e)" and w: "w' =
        w''"
      by simp_all
    from err have "fst (fst (InvokeExchange env ''GET'' u i t None resp ((?step ^^ k) w))) = Some e"
      by simp
    then have "\<not> is_transport_error e"
      unfolding is_transport_error_def using application_error_not_transport by blast
    moreover from slept err w have "slept w' = slept w + 10 * k"
      by simp
    ultimately show ?thesis
      using settles r by blast
  next
    case ok
    from GetWorkload_loop_success[OF ok] eq assms have r: "r = GetWorkload_found v sv r'" and w:
        "w' = w''"
      by simp_all
    from slept ok w have "slept w' = slept w + 10 * k"
      by simp
    then show ?thesis
      using settles r GetWorkload_found_errors by blast
  qed
qed

lemma GetWorkload_loop_diverges:
  assumes "\<forall>k. \<not> settles_after env u i t resp w k"
  shows "GetWorkload_loop env v sv u i t resp w = None"
proof (cases "GetWorkload_loop env v sv u i t resp w")
  case None
  then show ?thesis .
next
  case (Some y)
  from GetWorkload_loop_returns[OF Some] assms show ?thesis
    unfolding settles_after_def by blast
qed

lemma GetWorkload_loop_terminates:
  assumes "settles_after env u i t resp w k"
  shows "GetWorkload_loop env v sv u i t resp w \<noteq> None"
proof -
  let ?step = "retry_step env u i t resp"
  from assms have
    k: "\<And>j. j < k \<Longrightarrow>
          transport_failed (InvokeExchange env ''GET'' u i t None resp ((?step ^^ j) w))"
       "\<not> transport_failed (InvokeExchange env ''GET'' u i t None resp ((?step ^^ k) w))"
    by (simp_all add: settles_after_def)
  have eq: "GetWorkload_loop env v sv u i t resp w = GetWorkload_loop env v sv u i t resp ((?step
      ^^ k) w)"
    using k(1) by (rule GetWorkload_loop_skip)
  from not_transport_failed_cases[OF k(2)] show ?thesis
  proof (elim disjE exE)
    fix e r' w'
    assume "InvokeExchange env ''GET'' u i t None resp ((?step ^^ k) w) = ((Some e, None), r', w')"
    from GetWorkload_loop_error[OF this] eq show ?thesis
      by simp
  next
    fix r' w'
    assume "InvokeExchange env ''GET'' u i t None resp ((?step ^^ k) w) = ((None, None), r', w')"
    from GetWorkload_loop_success[OF this] eq show ?thesis
      by simp
  qed
qed


lemma GetMicroservice_loop_outcome:
  assumes "GetMicroservice_loop env v sv u i t resp w = Some (r, w')"
  shows "\<exists>k. settles_after env u i t resp w k \<and> slept w' = slept w + 10 * k
            \<and> (\<forall>x e. r = Returns (x, Some e) \<longrightarrow> \<not>
                is_transport_error e)"
proof -
  let ?step = "retry_step env u i t resp"
  from GetMicroservice_loop_returns[OF assms] obtain k where
    k: "\<forall>j<k. transport_failed (InvokeExchange env ''GET'' u i t None resp ((?step ^^ j)
        w))"
       "\<not> transport_failed (InvokeExchange env ''GET'' u i t None resp ((?step ^^ k) w))"
    by blast
  then have settles: "settles_after env u i t resp w k"
    by (simp add: settles_after_def)
  have eq: "GetMicroservice_loop env v sv u i t resp w = GetMicroservice_loop env v sv u i t resp
      ((?step ^^ k) w)"
    using k(1) by (intro GetMicroservice_loop_skip) simp
  have slept: "slept (snd (snd (InvokeExchange env ''GET'' u i t None resp ((?step ^^ k) w))))
                 = slept w + 10 * k"
    by (simp add: InvokeExchange_slept slept_retry_steps)
  from not_transport_failed_cases[OF k(2)]
  consider (err) e r' w'' where
      "InvokeExchange env ''GET'' u i t None resp ((?step ^^ k) w) = ((Some e, None), r', w'')"
    | (ok) r' w'' where
      "InvokeExchange env ''GET'' u i t None resp ((?step ^^ k) w) = ((None, None), r', w'')"
    by blast
  then show ?thesis
  proof cases
    case err
    from GetMicroservice_loop_error[OF err] eq assms have r: "r = Returns (None, Some e)" and w:
        "w' = w''"
      by simp_all
    from err have "fst (fst (InvokeExchange env ''GET'' u i t None resp ((?step ^^ k) w))) = Some e"
      by simp
    then have "\<not> is_transport_error e"
      unfolding is_transport_error_def using application_error_not_transport by blast
    moreover from slept err w have "slept w' = slept w + 10 * k"
      by simp
    ultimately show ?thesis
      using settles r by blast
  next
    case ok
    from GetMicroservice_loop_success[OF ok] eq assms have r: "r = GetMicroservice_found v sv r'"
        and w: "w' = w''"
      by simp_all
    from slept ok w have "slept w' = slept w + 10 * k"
      by simp
    then show ?thesis
      using settles r GetMicroservice_found_errors by blast
  qed
qed

lemma GetMicroservice_loop_diverges:
  assumes "\<forall>k. \<not> settles_after env u i t resp w k"
  shows "GetMicroservice_loop env v sv u i t resp w = None"
proof (cases "GetMicroservice_loop env v sv u i t resp w")
  case None
  then show ?thesis .
next
  case (Some y)
  from GetMicroservice_loop_returns[OF Some] assms show ?thesis
    unfolding settles_after_def by blast
qed

lemma GetMicroservice_loop_terminates:
  assumes "settles_after env u i t resp w k"
  shows "GetMicroservice_loop env v sv u i t resp w \<noteq> None"
proof -
  let ?step = "retry_step env u i t resp"
  from assms have
    k: "\<And>j. j < k \<Longrightarrow>
          transport_failed (InvokeExchange env ''GET'' u i t None resp ((?step ^^ j) w))"
       "\<not> transport_failed (InvokeExchange env ''GET'' u i t None resp ((?step ^^ k) w))"
    by (simp_all add: settles_after_def)
  have eq: "GetMicroservice_loop env v sv u i t resp w = GetMicroservice_loop env v sv u i t resp
      ((?step ^^ k) w)"
    using k(1) by (rule GetMicroservice_loop_skip)
  from not_transport_failed_cases[OF k(2)] show ?thesis
  proof (elim disjE exE)
    fix e r' w'
    assume "InvokeExchange env ''GET'' u i t None resp ((?step ^^ k) w) = ((Some e, None), r', w')"
    from GetMicroservice_loop_error[OF this] eq show ?thesis
      by simp
  next
    fix r' w'
    assume "InvokeExchange env ''GET'' u i t None resp ((?step ^^ k) w) = ((None, None), r', w')"
    from GetMicroservice_loop_success[OF this] eq show ?thesis
      by simp
  qed
qed


lemma GetOrganization_loop_outcome:
  assumes "GetOrganization_loop env org u i t resp w = Some (r, w')"
  shows "\<exists>k. settles_after env u i t resp w k \<and> slept w' = slept w + 10 * k
            \<and> (\<forall>x e. r = Returns (x, Some e) \<longrightarrow> \<not>
                is_transport_error e)"
proof -
  let ?step = "retry_step env u i t resp"
  from GetOrganization_loop_returns[OF assms] obtain k where
    k: "\<forall>j<k. transport_failed (InvokeExchange env ''GET'' u i t None resp ((?step ^^ j)
        w))"
       "\<not> transport_failed (InvokeExchange env ''GET'' u i t None resp ((?step ^^ k) w))"
    by blast
  then have settles: "settles_after env u i t resp w k"
    by (simp add: settles_after_def)
  have eq: "GetOrganization_loop env org u i t resp w = GetOrganization_loop env org u i t resp
      ((?step ^^ k) w)"
    using k(1) by (intro GetOrganization_loop_skip) simp
  have slept: "slept (snd (snd (InvokeExchange env ''GET'' u i t None resp ((?step ^^ k) w))))
                 = slept w + 10 * k"
    by (simp add: InvokeExchange_slept slept_retry_steps)
  from not_transport_failed_cases[OF k(2)]
  consider (err) e r' w'' where
      "InvokeExchange env ''GET'' u i t None resp ((?step ^^ k) w) = ((Some e, None), r', w'')"
    | (ok) r' w'' where
      "InvokeExchange env ''GET'' u i t None resp ((?step ^^ k) w) = ((None, None), r', w'')"
    by blast
  then show ?thesis
  proof cases
    case err
    from GetOrganization_loop_error[OF err] eq assms have r: "r = Returns (None, Some e)" and w:
        "w' = w''"
      by simp_all
    from err have "fst (fst (InvokeExchange env ''GET'' u i t None resp ((?step ^^ k) w))) = Some e"
      by simp
    then have "\<not> is_transport_error e"
      unfolding is_transport_error_def using application_error_not_transport by blast
    moreover from slept err w have "slept w' = slept w + 10 * k"
      by simp
    ultimately show ?thesis
      using settles r by blast
  next
    case ok
    from GetOrganization_loop_success[OF ok] eq assms have r: "r = GetOrganization_found org r'"
        and w: "w' = w''"
      by simp_all
    from slept ok w have "slept w' = slept w + 10 * k"
      by simp
    then show ?thesis
      using settles r GetOrganization_found_errors by blast
  qed
qed

lemma GetOrganization_loop_diverges:
  assumes "\<forall>k. \<not> settles_after env u i t resp w k"
  shows "GetOrganization_loop env org u i t resp w = None"
proof (cases "GetOrganization_loop env org u i t resp w")
  case None
  then show ?thesis .
next
  case (Some y)
  from GetOrganization_loop_returns[OF Some] assms show ?thesis
    unfolding settles_after_def by blast
qed

lemma GetOrganization_loop_terminates:
  assumes "settles_after env u i t resp w k"
  shows "GetOrganization_loop env org u i t resp w \<noteq> None"
proof -
  let ?step = "retry_step env u i t resp"
  from assms have
    k: "\<And>j. j < k \<Longrightarrow>
          transport_failed (InvokeExchange env ''GET'' u i t None resp ((?step ^^ j) w))"
       "\<not> transport_failed (InvokeExchange env ''GET'' u i t None resp ((?step ^^ k) w))"
    by (simp_all add: settles_after_def)
  have eq: "GetOrganization_loop env org u i t resp w = GetOrganization_loop env org u i t resp
      ((?step ^^ k) w)"
    using k(1) by (rule GetOrganization_loop_skip)
  from not_transport_failed_cases[OF k(2)] show ?thesis
  proof (elim disjE exE)
    fix e r' w'
    assume "InvokeExchange env ''GET'' u i t None resp ((?step ^^ k) w) = ((Some e, None), r', w')"
    from GetOrganization_loop_error[OF this] eq show ?thesis
      by simp
  next
    fix r' w'
    assume "InvokeExchange env ''GET'' u i t None resp ((?step ^^ k) w) = ((None, None), r', w')"
    from GetOrganization_loop_success[OF this] eq show ?thesis
      by simp
  qed
qed


lemma GetEthereumClient_loop_outcome:
  assumes "GetEthereumClient_loop env cn u i t resp w = Some (r, w')"
  shows "\<exists>k. settles_after env u i t resp w k \<and> slept w' = slept w + 10 * k
            \<and> (\<forall>x e. r = Returns (x, Some e) \<longrightarrow> \<not>
                is_transport_error e)"
proof -
  let ?step = "retry_step env u i t resp"
  from GetEthereumClient_loop_returns[OF assms] obtain k where
    k: "\<forall>j<k. transport_failed (InvokeExchange env ''GET'' u i t None resp ((?step ^^ j)
        w))"
       "\<not> transport_failed (InvokeExchange env ''GET'' u i t None resp ((?step ^^ k) w))"
    by blast
  then have settles: "settles_after env u i t resp w k"
    by (simp add: settles_after_def)
  have eq: "GetEthereumClient_loop env cn u i t resp w = GetEthereumClient_loop env cn u i t resp
      ((?step ^^ k) w)"
    using k(1) by (intro GetEthereumClient_loop_skip) simp
  have slept: "slept (snd (snd (InvokeExchange env ''GET'' u i t None resp ((?step ^^ k) w))))
                 = slept w + 10 * k"
    by (simp add: InvokeExchange_slept slept_retry_steps)
  from not_transport_failed_cases[OF k(2)]
  consider (err) e r' w'' where
      "InvokeExchange env ''GET'' u i t None resp ((?step ^^ k) w) = ((Some e, None), r', w'')"
    | (ok) r' w'' where
      "InvokeExchange env ''GET'' u i t None resp ((?step ^^ k) w) = ((None, None), r', w'')"
    by blast
  then show ?thesis
  proof cases
    case err
    from GetEthereumClient_loop_error[OF err] eq assms have r: "r = Returns ([], Some e)" and w:
        "w' = w''"
      by simp_all
    from err have "fst (fst (InvokeExchange env ''GET'' u i t None resp ((?step ^^ k) w))) = Some e"
      by simp
    then have "\<not> is_transport_error e"
      unfolding is_transport_error_def using application_error_not_transport by blast
    moreover from slept err w have "slept w' = slept w + 10 * k"
      by simp
    ultimately show ?thesis
      using settles r by blast
  next
    case ok
    from GetEthereumClient_loop_success[OF ok] eq assms have r: "r = GetEthereumClient_found cn
        r'" and w: "w' = w''"
      by simp_all
    from slept ok w have "slept w' = slept w + 10 * k"
      by simp
    then show ?thesis
      using settles r GetEthereumClient_found_errors by blast
  qed
qed

lemma GetEthereumClient_loop_diverges:
  assumes "\<forall>k. \<not> settles_after env u i t resp w k"
  shows "GetEthereumClient_loop env cn u i t resp w = None"
proof (cases "GetEthereumClient_loop env cn u i t resp w")
  case None
  then show ?thesis .
next
  case (Some y)
  from GetEthereumClient_loop_returns[OF Some] assms show ?thesis
    unfolding settles_after_def by blast
qed

lemma GetEthereumClient_loop_terminates:
  assumes "settles_after env u i t resp w k"
  shows "GetEthereumClient_loop env cn u i t resp w \<noteq> None"
proof -
  let ?step = "retry_step env u i t resp"
  from assms have
    k: "\<And>j. j < k \<Longrightarrow>
          transport_failed (InvokeExchange env ''GET'' u i t None resp ((?step ^^ j) w))"
       "\<not> transport_failed (InvokeExchange env ''GET'' u i t None resp ((?step ^^ k) w))"
    by (simp_all add: settles_after_def)
  have eq: "GetEthereumClient_loop env cn u i t resp w = GetEthereumClient_loop env cn u i t resp
      ((?step ^^ k) w)"
    using k(1) by (rule GetEthereumClient_loop_skip)
  from not_transport_failed_cases[OF k(2)] show ?thesis
  proof (elim disjE exE)
    fix e r' w'
    assume "InvokeExchange env ''GET'' u i t None resp ((?step ^^ k) w) = ((Some e, None), r', w')"
    from GetEthereumClient_loop_error[OF this] eq show ?thesis
      by simp
  next
    fix r' w'
    assume "InvokeExchange env ''GET'' u i t None resp ((?step ^^ k) w) = ((None, None), r', w')"
    from GetEthereumClient_loop_success[OF this] eq show ?thesis
      by simp
  qed
qed

subsection \<open>Transport errors are retried\<close>

lemma GetWorkload_retries:
  "(\<forall>x e w'. GetWorkload env wURL wOrg wVersion wArch exURL i t w = Some (Returns (x, Some
      e), w')
      \<longrightarrow> \<not> is_transport_error e)
   \<and> (\<forall>sv. getSearchVersion wVersion = Inr sv \<longrightarrow>
   (\<forall>r w'. GetWorkload env wURL wOrg wVersion wArch exURL i t w = Some (r, w')
      \<longrightarrow> (\<exists>k. settles_after env (workloads_URL exURL wOrg wURL sv wArch) i t
                  (Some (GetWorkloadsResponse [])) w k
                \<and> slept w' = slept w + 10 * k))
   \<and> ((\<forall>j. transport_failed (InvokeExchange env ''GET'' (workloads_URL exURL wOrg
       wURL sv wArch) i t None
             (Some (GetWorkloadsResponse []))
             ((retry_step env (workloads_URL exURL wOrg wURL sv wArch) i t
                 (Some (GetWorkloadsResponse [])) ^^ j) w)))
      \<longrightarrow> GetWorkload env wURL wOrg wVersion wArch exURL i t w = None)
   \<and> (\<forall>k. settles_after env (workloads_URL exURL wOrg wURL sv wArch) i t
             (Some (GetWorkloadsResponse [])) w k
      \<longrightarrow> GetWorkload env wURL wOrg wVersion wArch exURL i t w \<noteq> None))"
proof (intro conjI allI impI)
  fix x e w'
  assume ret: "GetWorkload env wURL wOrg wVersion wArch exURL i t w = Some (Returns (x, Some e),
      w')"
  show "\<not> is_transport_error e"
  proof (cases "getSearchVersion wVersion")
    case (Inl err)
    with ret have "e = InvalidVersionString wVersion"
      by (auto simp: GetWorkload_def getSearchVersion_def split: if_splits)
    then show ?thesis
      using transport_error_is_InvokeFailed[of e] by auto
  next
    case (Inr sv)
    with ret have "GetWorkload_loop env wVersion sv (workloads_URL exURL wOrg wURL sv wArch) i t
        (Some (GetWorkloadsResponse [])) w
                     = Some (Returns (x, Some e), w')"
      by (simp add: GetWorkload_def)
    from GetWorkload_loop_outcome[OF this] show ?thesis
      by blast
  qed
next
  fix sv r w'
  assume "getSearchVersion wVersion = Inr sv" and "GetWorkload env wURL wOrg wVersion wArch exURL
      i t w = Some (r, w')"
  then have "GetWorkload_loop env wVersion sv (workloads_URL exURL wOrg wURL sv wArch) i t (Some
      (GetWorkloadsResponse [])) w = Some (r, w')"
    by (simp add: GetWorkload_def)
  from GetWorkload_loop_outcome[OF this]
  show "\<exists>k. settles_after env (workloads_URL exURL wOrg wURL sv wArch) i t (Some
      (GetWorkloadsResponse [])) w k
            \<and> slept w' = slept w + 10 * k"
    by blast
next
  fix sv
  assume sv: "getSearchVersion wVersion = Inr sv"
    and "\<forall>j. transport_failed (InvokeExchange env ''GET'' (workloads_URL exURL wOrg wURL
        sv wArch) i t None
          (Some (GetWorkloadsResponse [])) ((retry_step env (workloads_URL exURL wOrg wURL sv
              wArch) i t (Some (GetWorkloadsResponse [])) ^^ j) w))"
  then have "\<forall>k. \<not> settles_after env (workloads_URL exURL wOrg wURL sv wArch) i t
      (Some (GetWorkloadsResponse [])) w k"
    by (simp add: settles_after_def)
  from GetWorkload_loop_diverges[OF this] sv show "GetWorkload env wURL wOrg wVersion wArch exURL
      i t w = None"
    by (simp add: GetWorkload_def)
next
  fix sv k
  assume sv: "getSearchVersion wVersion = Inr sv"
    and "settles_after env (workloads_URL exURL wOrg wURL sv wArch) i t (Some
        (GetWorkloadsResponse [])) w k"
  from GetWorkload_loop_terminates[OF this(2)] sv show "GetWorkload env wURL wOrg wVersion wArch
      exURL i t w \<noteq> None"
    by (simp add: GetWorkload_def)
qed

lemma GetMicroservice_retries:
  "(\<forall>x e w'. GetMicroservice env mURL mOrg mVersion mArch exURL i t w = Some (Returns (x,
      Some e), w')
      \<longrightarrow> \<not> is_transport_error e)
   \<and> (\<forall>sv. getSearchVersion mVersion = Inr sv \<longrightarrow>
   (\<forall>r w'. GetMicroservice env mURL mOrg mVersion mArch exURL i t w = Some (r, w')
      \<longrightarrow> (\<exists>k. settles_after env (microservices_URL exURL mOrg mURL sv
          mArch) i t
                  (Some (GetMicroservicesResponse [])) w k
                \<and> slept w' = slept w + 10 * k))
   \<and> ((\<forall>j. transport_failed (InvokeExchange env ''GET'' (microservices_URL exURL mOrg
       mURL sv mArch) i t None
             (Some (GetMicroservicesResponse []))
             ((retry_step env (microservices_URL exURL mOrg mURL sv mArch) i t
                 (Some (GetMicroservicesResponse [])) ^^ j) w)))
      \<longrightarrow> GetMicroservice env mURL mOrg mVersion mArch exURL i t w = None)
   \<and> (\<forall>k. settles_after env (microservices_URL exURL mOrg mURL sv mArch) i t
             (Some (GetMicroservicesResponse [])) w k
      \<longrightarrow> GetMicroservice env mURL mOrg mVersion mArch exURL i t w \<noteq> None))"
proof (intro conjI allI impI)
  fix x e w'
  assume ret: "GetMicroservice env mURL mOrg mVersion mArch exURL i t w = Some (Returns (x, Some
      e), w')"
  show "\<not> is_transport_error e"
  proof (cases "getSearchVersion mVersion")
    case (Inl err)
    with ret have "e = InvalidVersionString mVersion"
      by (auto simp: GetMicroservice_def getSearchVersion_def split: if_splits)
    then show ?thesis
      using transport_error_is_InvokeFailed[of e] by auto
  next
    case (Inr sv)
    with ret have "GetMicroservice_loop env mVersion sv (microservices_URL exURL mOrg mURL sv
        mArch) i t (Some (GetMicroservicesResponse [])) w
                     = Some (Returns (x, Some e), w')"
      by (simp add: GetMicroservice_def)
    from GetMicroservice_loop_outcome[OF this] show ?thesis
      by blast
  qed
next
  fix sv r w'
  assume "getSearchVersion mVersion = Inr sv" and "GetMicroservice env mURL mOrg mVersion mArch
      exURL i t w = Some (r, w')"
  then have "GetMicroservice_loop env mVersion sv (microservices_URL exURL mOrg mURL sv mArch) i t
      (Some (GetMicroservicesResponse [])) w = Some (r, w')"
    by (simp add: GetMicroservice_def)
  from GetMicroservice_loop_outcome[OF this]
  show "\<exists>k. settles_after env (microservices_URL exURL mOrg mURL sv mArch) i t (Some
      (GetMicroservicesResponse [])) w k
            \<and> slept w' = slept w + 10 * k"
    by blast
next
  fix sv
  assume sv: "getSearchVersion mVersion = Inr sv"
    and "\<forall>j. transport_failed (InvokeExchange env ''GET'' (microservices_URL exURL mOrg
        mURL sv mArch) i t None
          (Some (GetMicroservicesResponse [])) ((retry_step env (microservices_URL exURL mOrg mURL
              sv mArch) i t (Some (GetMicroservicesResponse [])) ^^ j) w))"
  then have "\<forall>k. \<not> settles_after env (microservices_URL exURL mOrg mURL sv mArch) i t
      (Some (GetMicroservicesResponse [])) w k"
    by (simp add: settles_after_def)
  from GetMicroservice_loop_diverges[OF this] sv show "GetMicroservice env mURL mOrg mVersion
      mArch exURL i t w = None"
    by (simp add: GetMicroservice_def)
next
  fix sv k
  assume sv: "getSearchVersion mVersion = Inr sv"
    and "settles_after env (microservices_URL exURL mOrg mURL sv mArch) i t (Some
        (GetMicroservicesResponse [])) w k"
  from GetMicroservice_loop_terminates[OF this(2)] sv show "GetMicroservice env mURL mOrg mVersion
      mArch exURL i t w \<noteq> None"
    by (simp add: GetMicroservice_def)
qed

lemma GetOrganization_retries:
  "(\<forall>x e w'. GetOrganization env org exURL i t w = Some (Returns (x, Some e), w')
      \<longrightarrow> \<not> is_transport_error e)
   \<and> (\<forall>r w'. GetOrganization env org exURL i t w = Some (r, w')
      \<longrightarrow> (\<exists>k. settles_after env (organization_URL exURL org) i t
                  (Some (GetOrganizationResponse [])) w k
                \<and> slept w' = slept w + 10 * k))
   \<and> ((\<forall>j. transport_failed (InvokeExchange env ''GET'' (organization_URL exURL org)
       i t None
             (Some (GetOrganizationResponse []))
             ((retry_step env (organization_URL exURL org) i t
                 (Some (GetOrganizationResponse [])) ^^ j) w)))
      \<longrightarrow> GetOrganization env org exURL i t w = None)
   \<and> (\<forall>k. settles_after env (organization_URL exURL org) i t
             (Some (GetOrganizationResponse [])) w k
      \<longrightarrow> GetOrganization env org exURL i t w \<noteq> None)"
proof (intro conjI allI impI)
  fix x e w'
  assume "GetOrganization env org exURL i t w = Some (Returns (x, Some e), w')"
  then have "GetOrganization_loop env org (organization_URL exURL org) i t (Some
      (GetOrganizationResponse [])) w
               = Some (Returns (x, Some e), w')"
    by (simp add: GetOrganization_def)
  from GetOrganization_loop_outcome[OF this] show "\<not> is_transport_error e"
    by blast
next
  fix r w'
  assume "GetOrganization env org exURL i t w = Some (r, w')"
  then have "GetOrganization_loop env org (organization_URL exURL org) i t (Some
      (GetOrganizationResponse [])) w = Some (r, w')"
    by (simp add: GetOrganization_def)
  from GetOrganization_loop_outcome[OF this]
  show "\<exists>k. settles_after env (organization_URL exURL org) i t (Some
      (GetOrganizationResponse [])) w k
            \<and> slept w' = slept w + 10 * k"
    by blast
next
  assume "\<forall>j. transport_failed (InvokeExchange env ''GET'' (organization_URL exURL org) i
      t None
          (Some (GetOrganizationResponse [])) ((retry_step env (organization_URL exURL org) i t
              (Some (GetOrganizationResponse [])) ^^ j) w))"
  then have "\<forall>k. \<not> settles_after env (organization_URL exURL org) i t (Some
      (GetOrganizationResponse [])) w k"
    by (simp add: settles_after_def)
  from GetOrganization_loop_diverges[OF this] show "GetOrganization env org exURL i t w = None"
    by (simp add: GetOrganization_def)
next
  fix k
  assume "settles_after env (organization_URL exURL org) i t (Some (GetOrganizationResponse [])) w
      k"
  from GetOrganization_loop_terminates[OF this] show "GetOrganization env org exURL i t w \<noteq>
      None"
    by (simp add: GetOrganization_def)
qed

lemma GetEthereumClient_retries:
  "(\<forall>x e w'. GetEthereumClient env url org chainName chainType i t w = Some (Returns (x,
      Some e), w')
      \<longrightarrow> \<not> is_transport_error e)
   \<and> (\<forall>r w'. GetEthereumClient env url org chainName chainType i t w = Some (r, w')
      \<longrightarrow> (\<exists>k. settles_after env (blockchain_URL url org chainType
          chainName) i t
                  (Some (GetEthereumClientResponse [])) w k
                \<and> slept w' = slept w + 10 * k))
   \<and> ((\<forall>j. transport_failed (InvokeExchange env ''GET'' (blockchain_URL url org
       chainType chainName) i t None
             (Some (GetEthereumClientResponse []))
             ((retry_step env (blockchain_URL url org chainType chainName) i t
                 (Some (GetEthereumClientResponse [])) ^^ j) w)))
      \<longrightarrow> GetEthereumClient env url org chainName chainType i t w = None)
   \<and> (\<forall>k. settles_after env (blockchain_URL url org chainType chainName) i t
             (Some (GetEthereumClientResponse [])) w k
      \<longrightarrow> GetEthereumClient env url org chainName chainType i t w \<noteq> None)"
proof (intro conjI allI impI)
  fix x e w'
  assume "GetEthereumClient env url org chainName chainType i t w = Some (Returns (x, Some e), w')"
  then have "GetEthereumClient_loop env chainName (blockchain_URL url org chainType chainName) i t
      (Some (GetEthereumClientResponse [])) w
               = Some (Returns (x, Some e), w')"
    by (simp add: GetEthereumClient_def)
  from GetEthereumClient_loop_outcome[OF this] show "\<not> is_transport_error e"
    by blast
next
  fix r w'
  assume "GetEthereumClient env url org chainName chainType i t w = Some (r, w')"
  then have "GetEthereumClient_loop env chainName (blockchain_URL url org chainType chainName) i t
      (Some (GetEthereumClientResponse [])) w = Some (r, w')"
    by (simp add: GetEthereumClient_def)
  from GetEthereumClient_loop_outcome[OF this]
  show "\<exists>k. settles_after env (blockchain_URL url org chainType chainName) i t (Some
      (GetEthereumClientResponse [])) w k
            \<and> slept w' = slept w + 10 * k"
    by blast
next
  assume "\<forall>j. transport_failed (InvokeExchange env ''GET'' (blockchain_URL url org
      chainType chainName) i t None
          (Some (GetEthereumClientResponse [])) ((retry_step env (blockchain_URL url org chainType
              chainName) i t (Some (GetEthereumClientResponse [])) ^^ j) w))"
  then have "\<forall>k. \<not> settles_after env (blockchain_URL url org chainType chainName) i t
      (Some (GetEthereumClientResponse [])) w k"
    by (simp add: settles_after_def)
  from GetEthereumClient_loop_diverges[OF this] show "GetEthereumClient env url org chainName
      chainType i t w = None"
    by (simp add: GetEthereumClient_def)
next
  fix k
  assume "settles_after env (blockchain_URL url org chainType chainName) i t (Some
      (GetEthereumClientResponse [])) w k"
  from GetEthereumClient_loop_terminates[OF this] show "GetEthereumClient env url org chainName
      chainType i t w \<noteq> None"
    by (simp add: GetEthereumClient_def)
qed



lemma network_failing:
  assumes "u \<noteq> []"
  shows "InvokeExchange (network_answering (Inl txt)) ''GET'' u i t None (Some r) w =
           (if isTimeout txt then (None, Some (InvokeFailed ''GET'' u [] (Some txt)))
            else (Some (InvokeFailed ''GET'' u [] (Some txt)), None),
            Some r,
            w\<lparr>sent := sent w @ [\<lparr>rq_Method = ''GET'', rq_URL = u, rq_Body = [],
                rq_Close = True,
                rq_Header = [(''Accept'', ''application/json'')]
                  @ (if i \<noteq> [] \<and> t \<noteq> [] then [(''Authorization'', ''Basic '' @
                      i @ '':'' @ t)]
                     else [])\<rparr>]\<rparr>)"
  using assms
  by (simp add: InvokeExchange_def InvokeExchange_request_def network_answering_def)

text \<open>
  C8. \<^verbatim>\<open>GetWorkload\<close>, \<^verbatim>\<open>GetMicroservice\<close>, \<^verbatim>\<open>GetOrganization\<close> and \<^verbatim>\<open>GetEthereumClient\<close>
  never return a transport error: an error that one of them returns is not the
  transport error of any call of \<^verbatim>\<open>InvokeExchange\<close>. When a call returns,
      some number \<open>k\<close>
  of requests failed with a transport error, each followed by a sleep of 10 seconds
  and another request, and the next request did not (\<open>settles_after\<close>), so that the
  call slept \<open>10 * k\<close> seconds; when such a \<open>k\<close> exists the call returns;
      and when every
  request fails with a transport error the call never returns (it is \<open>None\<close>). For
  \<^verbatim>\<open>GetWorkload\<close> and \<^verbatim>\<open>GetMicroservice\<close> the loop
      is reached when \<^verbatim>\<open>getSearchVersion\<close>
  accepts the version; otherwise they return its error at once.
\<close>

theorem lookups_retry_transport_errors:
  "((\<forall>x e w'. GetWorkload env wURL wOrg wVersion wArch exURL i t w = Some (Returns (x,
      Some e), w')
       \<longrightarrow> \<not> is_transport_error e)
    \<and> (\<forall>sv. getSearchVersion wVersion = Inr sv \<longrightarrow>
    (\<forall>r w'. GetWorkload env wURL wOrg wVersion wArch exURL i t w = Some (r, w')
       \<longrightarrow> (\<exists>k. settles_after env (workloads_URL exURL wOrg wURL sv wArch) i t
                   (Some (GetWorkloadsResponse [])) w k
                 \<and> slept w' = slept w + 10 * k))
    \<and> ((\<forall>j. transport_failed (InvokeExchange env ''GET'' (workloads_URL exURL wOrg
        wURL sv wArch) i t None
              (Some (GetWorkloadsResponse []))
              ((retry_step env (workloads_URL exURL wOrg wURL sv wArch) i t
                  (Some (GetWorkloadsResponse [])) ^^ j) w)))
       \<longrightarrow> GetWorkload env wURL wOrg wVersion wArch exURL i t w = None)
    \<and> (\<forall>k. settles_after env (workloads_URL exURL wOrg wURL sv wArch) i t
              (Some (GetWorkloadsResponse [])) w k
       \<longrightarrow> GetWorkload env wURL wOrg wVersion wArch exURL i t w \<noteq> None)))
   \<and> ((\<forall>x e w'. GetMicroservice env mURL mOrg mVersion mArch exURL i t w = Some
       (Returns (x, Some e), w')
       \<longrightarrow> \<not> is_transport_error e)
    \<and> (\<forall>sv. getSearchVersion mVersion = Inr sv \<longrightarrow>
    (\<forall>r w'. GetMicroservice env mURL mOrg mVersion mArch exURL i t w = Some (r, w')
       \<longrightarrow> (\<exists>k. settles_after env (microservices_URL exURL mOrg mURL sv
           mArch) i t
                   (Some (GetMicroservicesResponse [])) w k
                 \<and> slept w' = slept w + 10 * k))
    \<and> ((\<forall>j. transport_failed (InvokeExchange env ''GET'' (microservices_URL exURL
        mOrg mURL sv mArch) i t None
              (Some (GetMicroservicesResponse []))
              ((retry_step env (microservices_URL exURL mOrg mURL sv mArch) i t
                  (Some (GetMicroservicesResponse [])) ^^ j) w)))
       \<longrightarrow> GetMicroservice env mURL mOrg mVersion mArch exURL i t w = None)
    \<and> (\<forall>k. settles_after env (microservices_URL exURL mOrg mURL sv mArch) i t
              (Some (GetMicroservicesResponse [])) w k
       \<longrightarrow> GetMicroservice env mURL mOrg mVersion mArch exURL i t w \<noteq> None)))
   \<and> ((\<forall>x e w'. GetOrganization env org exURL i t w = Some (Returns (x, Some e), w')
       \<longrightarrow> \<not> is_transport_error e)
    \<and> (\<forall>r w'. GetOrganization env org exURL i t w = Some (r, w')
       \<longrightarrow> (\<exists>k. settles_after env (organization_URL exURL org) i t
                   (Some (GetOrganizationResponse [])) w k
                 \<and> slept w' = slept w + 10 * k))
    \<and> ((\<forall>j. transport_failed (InvokeExchange env ''GET'' (organization_URL exURL org)
        i t None
              (Some (GetOrganizationResponse []))
              ((retry_step env (organization_URL exURL org) i t
                  (Some (GetOrganizationResponse [])) ^^ j) w)))
       \<longrightarrow> GetOrganization env org exURL i t w = None)
    \<and> (\<forall>k. settles_after env (organization_URL exURL org) i t
              (Some (GetOrganizationResponse [])) w k
       \<longrightarrow> GetOrganization env org exURL i t w \<noteq> None))
   \<and> ((\<forall>x e w'. GetEthereumClient env url org chainName chainType i t w = Some
       (Returns (x, Some e), w')
       \<longrightarrow> \<not> is_transport_error e)
    \<and> (\<forall>r w'. GetEthereumClient env url org chainName chainType i t w = Some (r, w')
       \<longrightarrow> (\<exists>k. settles_after env (blockchain_URL url org chainType
           chainName) i t
                   (Some (GetEthereumClientResponse [])) w k
                 \<and> slept w' = slept w + 10 * k))
    \<and> ((\<forall>j. transport_failed (InvokeExchange env ''GET'' (blockchain_URL url org
        chainType chainName) i t None
              (Some (GetEthereumClientResponse []))
              ((retry_step env (blockchain_URL url org chainType chainName) i t
                  (Some (GetEthereumClientResponse [])) ^^ j) w)))
       \<longrightarrow> GetEthereumClient env url org chainName chainType i t w = None)
    \<and> (\<forall>k. settles_after env (blockchain_URL url org chainType chainName) i t
              (Some (GetEthereumClientResponse [])) w k
       \<longrightarrow> GetEthereumClient env url org chainName chainType i t w \<noteq> None))"
  by (rule conjI[OF GetWorkload_retries conjI[OF GetMicroservice_retries
        conjI[OF GetOrganization_retries GetEthereumClient_retries]]])


theorem lookups_retry_transport_errors_witness:
  "GetOrganization (network_answering (Inl
      ''net/http: request canceled (Client.Timeout exceeded)''))
      ''O'' ''http://x/'' ''n'' ''t'' world0 = None
   \<and> map_option fst (GetOrganization
        (network_answering (Inl ''dial tcp 10.0.0.1:80: connect: connection refused''))
        ''O'' ''http://x/'' ''n'' ''t'' world0)
     = Some (Returns (None, Some (InvokeFailed ''GET'' ''http://x/orgs/O'' []
               (Some ''dial tcp 10.0.0.1:80: connect: connection refused''))))
   \<and> \<not> is_transport_error (InvokeFailed ''GET'' ''http://x/orgs/O'' []
               (Some ''dial tcp 10.0.0.1:80: connect: connection refused''))
   \<and> GetWorkload (flaky_exchange 1 [] []) ''U'' ''O'' [] ''amd64'' ''http://x/'' ''n'' ''t''
       world0
       \<noteq> None"
proof -
  define T where "T = ''net/http: request canceled (Client.Timeout exceeded)''"
  define R where "R = ''dial tcp 10.0.0.1:80: connect: connection refused''"
  have T: "isTimeout T" and R: "\<not> isTimeout R"
    unfolding T_def R_def by code_simp+
  have u: "organization_URL ''http://x/'' ''O'' = ''http://x/orgs/O''"
    by (simp add: organization_URL_def)
  have "\<forall>j. transport_failed (InvokeExchange (network_answering (Inl T)) ''GET''
          (organization_URL ''http://x/'' ''O'') ''n'' ''t'' None (Some (GetOrganizationResponse
              []))
          ((retry_step (network_answering (Inl T)) (organization_URL ''http://x/'' ''O'') ''n''
              ''t''
              (Some (GetOrganizationResponse [])) ^^ j) world0))"
    by (simp add: u network_failing T transport_failed_def)
  then have w1: "GetOrganization (network_answering (Inl T)) ''O'' ''http://x/'' ''n'' ''t'' world0
                   = None"
    by (rule lookups_retry_transport_errors[THEN conjunct2, THEN conjunct2, THEN conjunct1,
          THEN conjunct2, THEN conjunct2, THEN conjunct1, THEN mp])
  have "GetOrganization_loop (network_answering (Inl R)) ''O'' ''http://x/orgs/O'' ''n'' ''t''
          (Some (GetOrganizationResponse [])) world0
        = Some (Returns (None, Some (InvokeFailed ''GET'' ''http://x/orgs/O'' [] (Some R))),
                snd (snd (InvokeExchange (network_answering (Inl R)) ''GET'' ''http://x/orgs/O''
                            ''n'' ''t'' None (Some (GetOrganizationResponse [])) world0)))"
    by (rule GetOrganization_loop_error[where tp = None and r' = "Some (GetOrganizationResponse
        [])"])
       (simp add: network_failing R)
  then have g: "GetOrganization (network_answering (Inl R)) ''O'' ''http://x/'' ''n'' ''t'' world0
        = Some (Returns (None, Some (InvokeFailed ''GET'' ''http://x/orgs/O'' [] (Some R))),
                snd (snd (InvokeExchange (network_answering (Inl R)) ''GET'' ''http://x/orgs/O''
                            ''n'' ''t'' None (Some (GetOrganizationResponse [])) world0)))"
    by (simp add: GetOrganization_def u)
  then have w2: "\<not> is_transport_error (InvokeFailed ''GET'' ''http://x/orgs/O'' [] (Some R))"
    by (rule lookups_retry_transport_errors[THEN conjunct2, THEN conjunct2, THEN conjunct1,
          THEN conjunct1, rule_format])
  let ?env = "flaky_exchange 1 [] []"
  let ?u = "workloads_URL ''http://x/'' ''O'' ''U'' [] ''amd64''"
  let ?r = "Some (GetWorkloadsResponse [])"
  have sv: "getSearchVersion [] = Inr []"
    by (simp add: getSearchVersion_def)
  have "transport_failed (InvokeExchange ?env ''GET'' ?u ''n'' ''t'' None ?r
          ((retry_step ?env ?u ''n'' ''t'' ?r ^^ 0) world0))"
       "\<not> transport_failed (InvokeExchange ?env ''GET'' ?u ''n'' ''t'' None ?r
          ((retry_step ?env ?u ''n'' ''t'' ?r ^^ 1) world0))"
    by code_simp+
  then have "settles_after ?env ?u ''n'' ''t'' ?r world0 1"
    by (simp add: settles_after_def)
  then have w3: "GetWorkload ?env ''U'' ''O'' [] ''amd64'' ''http://x/'' ''n'' ''t'' world0
      \<noteq> None"
    by (rule lookups_retry_transport_errors[THEN conjunct1, THEN conjunct2, rule_format, OF sv,
          THEN conjunct2, THEN conjunct2, rule_format])
  from w1 g w2 w3 show ?thesis
    unfolding T_def R_def by simp
qed

end
